theory Spec2Isabelle
  imports Complex_Main "HOL-Library.Word"
begin

unbundle bit_operations_syntax

section \<open>keep\_alive.py: the program and its environment\<close>

text \<open>
  The script talks to Windows through \<open>ctypes\<close> (kernel32 and user32), to the console
  through \<open>print\<close>, to the clock through \<open>time.sleep\<close>, and it may be interrupted by a
  signal. Every such interaction is an event of a trace; what the operating system
  answers is read from an oracle, the environment \<open>env\<close>. The calls are numbered by
  the events before them; the moments at which a signal can be handled are the
  checkpoints of the main program, numbered in the order in which it passes them.
  \<open>print\<close> is taken not to fail.
\<close>

type_synonym u32 = "32 word"

subsection \<open>Windows execution state flags (lines 19-21)\<close>

definition ES_CONTINUOUS :: u32 where
  "ES_CONTINUOUS = 0x80000000"

definition ES_SYSTEM_REQUIRED :: u32 where
  "ES_SYSTEM_REQUIRED = 0x00000001"

definition ES_DISPLAY_REQUIRED :: u32 where
  "ES_DISPLAY_REQUIRED = 0x00000002"

subsection \<open>Events, exceptions, environment, world\<close>

text \<open>
  \<open>ExecState flags r\<close>: \<open>SetThreadExecutionState(flags)\<close> was called and returned \<open>r\<close>
  (the previous state; 0 reports failure).
  \<open>GetCursorPos\<close>, \<open>SetCursorPos x y\<close>: the user32 call was attempted with these
  Python arguments. \<open>Sleep d\<close>: \<open>time.sleep(d)\<close> was called, \<open>d\<close> in seconds.
  \<open>Print s\<close>: a line on the console.
\<close>

datatype event =
    ExecState u32 u32
  | GetCursorPos
  | SetCursorPos int int
  | Sleep rat
  | Print string

text \<open>
  \<open>SystemExit\<close> derives from \<open>BaseException\<close> only; \<open>Error m\<close> stands for any
  exception that derives from \<open>Exception\<close>, with \<open>str(e) = m\<close>.
\<close>

datatype exc = SystemExit int | Error string

text \<open>What a user32 call does: it succeeds, it returns 0 without effect, or ctypes raises.\<close>

datatype reply = Done | Refused | Raises string

text \<open>
  The oracle. \<open>ste_result E k\<close> is what \<open>SetThreadExecutionState\<close> returns when it is
  event number \<open>k\<close>; \<open>user32 E k\<close> is the fate of a user32 call that is event number
  \<open>k\<close>; \<open>signal_at E = Some k\<close> has one SIGINT or SIGTERM (both are bound to the same
  handler, lines 65-66) handled at checkpoint number \<open>k\<close> of the main program, after the
  handlers are installed; \<open>screen E\<close> maps a requested pointer position to the one the
  desktop really gives it; \<open>sleep_max E\<close> is the platform's limit on \<open>time.sleep\<close>: a
  duration of \<open>sleep_max E + 1\<close> seconds or more, of either sign, is refused.
\<close>

record env =
  ste_result :: "nat \<Rightarrow> u32"
  user32 :: "nat \<Rightarrow> reply"
  signal_at :: "nat option"
  screen :: "u32 \<times> u32 \<Rightarrow> u32 \<times> u32"
  sleep_max :: nat

text \<open>
  The pointer position is a pair of C \<open>long\<close> (32 bits on Windows), read signed.
  \<open>ticks\<close> counts the checkpoints that the main program has passed.
\<close>

record world =
  trace :: "event list"
  cursor :: "u32 \<times> u32"
  ticks :: nat

text \<open>The parsed command line (lines 52-57): \<open>args.mouse\<close> and \<open>args.interval\<close>.\<close>

record args =
  mouse :: bool
  interval :: int

type_synonym 'a io = "world \<Rightarrow> (exc + 'a) \<times> world"

definition emit :: "event \<Rightarrow> world \<Rightarrow> world" where
  "emit e w = w\<lparr>trace := trace w @ [e]\<rparr>"

text \<open>Sequencing: an exception of the first action skips the second.\<close>

definition then_do :: "'a io \<Rightarrow> ('a \<Rightarrow> 'b io) \<Rightarrow> 'b io" where
  "then_do m f w = (case m w of (Inl e, w') \<Rightarrow> (Inl e, w') | (Inr a, w') \<Rightarrow> f a w')"

subsection \<open>The library and system calls\<close>

definition SetThreadExecutionState :: "env \<Rightarrow> u32 \<Rightarrow> world \<Rightarrow> u32 \<times> world" where
  "SetThreadExecutionState E flags w =
     (let r = ste_result E (length (trace w)) in (r, emit (ExecState flags r) w))"

definition print :: "string \<Rightarrow> unit io" where
  "print s w = (Inr (), emit (Print s) w)"

text \<open>
  \<open>time.sleep\<close> first converts the duration to the platform's time type and raises
  \<open>OverflowError\<close> when it does not fit; then it raises \<open>ValueError\<close> on a negative
  duration. (The wording of the first message differs between Python versions; no
  claim depends on it.)
\<close>

definition time_sleep :: "env \<Rightarrow> rat \<Rightarrow> unit io" where
  "time_sleep E d w =
     (if of_nat (sleep_max E) + 1 \<le> \<bar>d\<bar>
      then (Inl (Error ''timestamp too large to convert to C PyTime_t''), emit (Sleep d) w)
      else if d < 0
      then (Inl (Error ''sleep length must be non-negative''), emit (Sleep d) w)
      else (Inr (), emit (Sleep d) w))"

text \<open>
  \<open>GetCursorPos(byref(pt))\<close>: on success \<open>pt\<close> holds the pointer position; when the
  call returns 0 the fresh \<open>POINT()\<close> keeps its zeros. The fields are read back as
  Python integers.
\<close>

definition user32_GetCursorPos :: "env \<Rightarrow> (int \<times> int) io" where
  "user32_GetCursorPos E w =
     (case user32 E (length (trace w)) of
        Raises m \<Rightarrow> (Inl (Error m), emit GetCursorPos w)
      | Refused \<Rightarrow> (Inr (0, 0), emit GetCursorPos w)
      | Done \<Rightarrow> (Inr (sint (fst (cursor w)), sint (snd (cursor w))), emit GetCursorPos w))"

text \<open>
  \<open>SetCursorPos(x, y)\<close>: ctypes passes a Python integer as a C \<open>int\<close>, keeping its low
  32 bits; the desktop then places the pointer.
\<close>

definition user32_SetCursorPos :: "env \<Rightarrow> int \<Rightarrow> int \<Rightarrow> unit io" where
  "user32_SetCursorPos E x y w =
     (case user32 E (length (trace w)) of
        Raises m \<Rightarrow> (Inl (Error m), emit (SetCursorPos x y) w)
      | Refused \<Rightarrow> (Inr (), emit (SetCursorPos x y) w)
      | Done \<Rightarrow> (Inr (), emit (SetCursorPos x y)
                   (w\<lparr>cursor := screen E (word_of_int x, word_of_int y)\<rparr>)))"

subsection \<open>\<open>allow_sleep\<close> (lines 32-34) and the signal handler \<open>on_exit\<close> (lines 60-63)\<close>

definition allow_sleep :: "env \<Rightarrow> unit io" where
  "allow_sleep E w = (Inr (), snd (SetThreadExecutionState E ES_CONTINUOUS w))"

definition on_exit :: "env \<Rightarrow> 'a io" where
  "on_exit E w =
     (let w1 = emit (Print (CHR 0x0A # ''[INFO] Restoring normal sleep settings...'')) w;
          w2 = snd (allow_sleep E w1)
      in (Inl (SystemExit 0), w2))"

text \<open>
  The main program can be interrupted before each of its interactions (and so also
  during the one before, a sleep in particular): if the signal is due at this checkpoint,
  the handler runs in place of the interaction and its \<open>SystemExit\<close> is raised there.
  The handler itself passes no checkpoint. \<open>proceed\<close> is the step from one statement to
  the next, where nothing else happens.
\<close>

definition at_checkpoint :: "env \<Rightarrow> 'a io \<Rightarrow> 'a io" where
  "at_checkpoint E m w =
     (if signal_at E = Some (ticks w) then on_exit E (w\<lparr>ticks := Suc (ticks w)\<rparr>)
      else m (w\<lparr>ticks := Suc (ticks w)\<rparr>))"

definition proceed :: "unit io" where
  "proceed w = (Inr (), w)"

definition sys_exit :: "int \<Rightarrow> 'a io" where
  "sys_exit code w = (Inl (SystemExit code), w)"

subsection \<open>\<open>prevent_sleep\<close> (lines 23-30)\<close>

definition prevent_sleep_flags :: u32 where
  "prevent_sleep_flags = ES_CONTINUOUS OR ES_SYSTEM_REQUIRED OR ES_DISPLAY_REQUIRED"

definition prevent_sleep :: "env \<Rightarrow> unit io" where
  "prevent_sleep E =
     then_do (at_checkpoint E (\<lambda>w. case SetThreadExecutionState E prevent_sleep_flags w of
                                    (r, w') \<Rightarrow> (Inr r, w')))
       (\<lambda>result.
          if result = 0 then
            then_do (at_checkpoint E
                       (print ''[ERROR] SetThreadExecutionState failed. Are you on Windows?''))
              (\<lambda>_. at_checkpoint E (sys_exit 1))
          else (\<lambda>w. (Inr (), w)))"

subsection \<open>\<open>nudge_mouse\<close> (lines 36-49)\<close>

definition nudge_try :: "env \<Rightarrow> unit io" where
  "nudge_try E =
     then_do (at_checkpoint E (user32_GetCursorPos E))
       (\<lambda>pt. then_do (at_checkpoint E (user32_SetCursorPos E (fst pt + 1) (snd pt)))
         (\<lambda>_. then_do (at_checkpoint E (time_sleep E (5 / 100)))
           (\<lambda>_. at_checkpoint E (user32_SetCursorPos E (fst pt) (snd pt)))))"

definition nudge_mouse :: "env \<Rightarrow> unit io" where
  "nudge_mouse E w =
     (case nudge_try E w of
        (Inl (Error m), w') \<Rightarrow>
          at_checkpoint E (print (''[WARN] Mouse nudge failed: '' @ m)) w'
      | r \<Rightarrow> r)"

subsection \<open>\<open>main\<close> (lines 51-83)\<close>

fun digits :: "nat \<Rightarrow> string" where
  "digits n = (if n < 10 then [char_of (48 + n)]
               else digits (n div 10) @ [char_of (48 + n mod 10)])"

definition str_int :: "int \<Rightarrow> string" where
  "str_int i = (if i < 0 then CHR ''-'' # digits (nat (- i)) else digits (nat i))"

text \<open>One pass through the body of \<open>while True\<close> (lines 76-81).\<close>

definition cycle :: "env \<Rightarrow> args \<Rightarrow> unit io" where
  "cycle E a =
     then_do (prevent_sleep E)
       (\<lambda>_. then_do (if mouse a then nudge_mouse E else (\<lambda>w. (Inr (), w)))
         (\<lambda>_. at_checkpoint E (time_sleep E (of_int (interval a)))))"

text \<open>
  \<open>while True\<close> has no normal exit: the loop is left by an exception or not at all.
  \<open>loop E a n\<close> runs at most \<open>n\<close> passes; \<open>None\<close> says that the loop is still running
  after them.
\<close>

fun loop :: "env \<Rightarrow> args \<Rightarrow> nat \<Rightarrow> world \<Rightarrow> exc option \<times> world" where
  "loop E a 0 w = (None, w)"
| "loop E a (Suc n) w =
     (case cycle E a w of
        (Inl e, w') \<Rightarrow> (Some e, w')
      | (Inr _, w') \<Rightarrow> loop E a n w')"

text \<open>
  \<open>try: ... finally: allow_sleep()\<close> (lines 73-83): an exception that leaves the loop
  runs \<open>allow_sleep\<close> and is raised again, unless the signal is handled in the
  \<open>finally\<close> block, before or after its call: then the handler's \<open>SystemExit\<close> takes the
  place of the exception.
\<close>

definition try_loop_finally :: "env \<Rightarrow> args \<Rightarrow> nat \<Rightarrow> world \<Rightarrow> exc option \<times> world" where
  "try_loop_finally E a n w =
     (case loop E a n w of
        (None, w') \<Rightarrow> (None, w')
      | (Some e, w') \<Rightarrow>
          (case then_do (at_checkpoint E (allow_sleep E)) (\<lambda>_. at_checkpoint E proceed) w' of
             (Inl e', w'') \<Rightarrow> (Some e', w'')
           | (Inr _, w'') \<Rightarrow> (Some e, w'')))"

text \<open>Lines 68-71: everything between the installation of the handlers and \<open>try\<close>.\<close>

definition startup :: "env \<Rightarrow> args \<Rightarrow> unit io" where
  "startup E a =
     then_do (prevent_sleep E)
       (\<lambda>_. then_do (at_checkpoint E (print ''[INFO] Keep-alive active. Press Ctrl+C to stop.''))
         (\<lambda>_. if mouse a
               then at_checkpoint E
                      (print (''[INFO] Mouse nudge enabled every '' @ str_int (interval a) @ ''s.''))
               else (\<lambda>w. (Inr (), w))))"

text \<open>
  \<open>main E a n w\<close>: the run from line 68 on, with at most \<open>n\<close> passes of the loop.
  \<open>Some e\<close>: the exception \<open>e\<close> left \<open>main\<close> and ends the process; \<open>None\<close>: still looping.
  Between the last print of the startup and \<open>try\<close> (line 73) lies a checkpoint of its
  own: a signal handled there raises outside the \<open>try\<close> block.
\<close>

definition main :: "env \<Rightarrow> args \<Rightarrow> nat \<Rightarrow> world \<Rightarrow> exc option \<times> world" where
  "main E a n w =
     (case then_do (startup E a) (\<lambda>_. at_checkpoint E proceed) w of
        (Inl e, w') \<Rightarrow> (Some e, w')
      | (Inr _, w') \<Rightarrow> try_loop_finally E a n w')"

text \<open>The exit status: the code of \<open>SystemExit\<close>, and 1 for an uncaught exception.\<close>

fun exit_status :: "exc \<Rightarrow> int" where
  "exit_status (SystemExit c) = c"
| "exit_status (Error m) = 1"

text \<open>The process starts with an empty trace and the pointer somewhere.\<close>

definition boot :: "u32 \<times> u32 \<Rightarrow> world" where
  "boot p = \<lparr>trace = [], cursor = p, ticks = 0\<rparr>"

subsection \<open>Reading a trace\<close>

fun is_release :: "event \<Rightarrow> bool" where
  "is_release (ExecState f r) = (f = ES_CONTINUOUS)"
| "is_release _ = False"

fun is_assert :: "event \<Rightarrow> bool" where
  "is_assert (ExecState f r) = (f = prevent_sleep_flags)"
| "is_assert _ = False"

fun is_user32 :: "event \<Rightarrow> bool" where
  "is_user32 GetCursorPos = True"
| "is_user32 (SetCursorPos x y) = True"
| "is_user32 _ = False"


definition releases :: "event list \<Rightarrow> nat" where
  "releases t = length (filter is_release t)"

definition nudges :: "event list \<Rightarrow> nat" where
  "nudges t = length (filter (\<lambda>e. e = GetCursorPos) t)"


subsection \<open>Accounting for the signal\<close>

text \<open>
  \<open>accounted E w h w'\<close> relates the worlds before and after a piece of the main program.
  With \<open>h\<close> the handler ran in between: the signal was due at a checkpoint \<open>k\<close> not before
  \<open>w\<close>, no checkpoint was passed after it, and one release call was added. Without \<open>h\<close>
  no release call was added and a signal still to come is due no earlier than \<open>w'\<close>.
\<close>

definition accounted :: "env \<Rightarrow> world \<Rightarrow> bool \<Rightarrow> world \<Rightarrow> bool" where
  "accounted E w h w' \<longleftrightarrow>
     (if h then (\<exists>k. signal_at E = Some k \<and> ticks w \<le> k \<and> ticks w' = Suc k)
                \<and> releases (trace w') = Suc (releases (trace w))
      else releases (trace w') = releases (trace w)
           \<and> ticks w \<le> ticks w'
           \<and> (\<forall>k. signal_at E = Some k \<longrightarrow> ticks w \<le> k \<longrightarrow> ticks w' \<le> k))"

subsection \<open>The shape of a pass through the loop\<close>

text \<open>
  \<open>nudge_tail\<close>: what \<open>nudge_mouse\<close> may do after \<open>GetCursorPos\<close>; \<open>nudge_event\<close>: what it
  may do at all. \<open>cycle_shape a c\<close>: the events \<open>c\<close> are a reassertion that Windows
  accepted, then (only with \<open>--mouse\<close>) one nudge, then the sleep of \<open>args.interval\<close>
  seconds. \<open>well_flagged\<close>: a call of \<open>SetThreadExecutionState\<close> carries the flags of
  \<open>prevent_sleep\<close> or those of \<open>allow_sleep\<close>.
\<close>

fun nudge_tail :: "event \<Rightarrow> bool" where
  "nudge_tail (SetCursorPos x y) = True"
| "nudge_tail (Sleep d) = (d = 5 / 100)"
| "nudge_tail (Print s) = (take 27 s = ''[WARN] Mouse nudge failed: '')"
| "nudge_tail _ = False"

definition nudge_event :: "event \<Rightarrow> bool" where
  "nudge_event e = (e = GetCursorPos \<or> nudge_tail e)"

definition cycle_shape :: "args \<Rightarrow> event list \<Rightarrow> bool" where
  "cycle_shape a c =
     (case c of
        ExecState f r # rest \<Rightarrow>
          f = prevent_sleep_flags \<and> r \<noteq> 0 \<and> rest \<noteq> []
          \<and> last rest = Sleep (of_int (interval a))
          \<and> (if mouse a
              then (case butlast rest of
                      GetCursorPos # ys \<Rightarrow> list_all nudge_tail ys
                    | _ \<Rightarrow> False)
              else butlast rest = [])
      | _ \<Rightarrow> False)"

fun well_flagged :: "event \<Rightarrow> bool" where
  "well_flagged (ExecState f r) = (f = prevent_sleep_flags \<or> f = ES_CONTINUOUS)"
| "well_flagged _ = True"

text \<open>What a completed startup (lines 68-71) leaves on a trace that was empty.\<close>

definition startup_trace :: "env \<Rightarrow> args \<Rightarrow> event list" where
  "startup_trace E a =
     [ExecState prevent_sleep_flags (ste_result E 0),
      Print ''[INFO] Keep-alive active. Press Ctrl+C to stop.'']
     @ (if mouse a
        then [Print (''[INFO] Mouse nudge enabled every '' @ str_int (interval a) @ ''s.'')]
        else [])"

subsection \<open>Sample environments and arguments\<close>

text \<open>
  \<open>quiet\<close>: Windows accepts every call, no signal arrives, and \<open>time.sleep\<close> takes what
  fits 64 bits of nanoseconds. \<open>refusing\<close>: Windows rejects every
  \<open>SetThreadExecutionState\<close>. \<open>interrupted k\<close>: as \<open>quiet\<close>, with the signal at checkpoint
  \<open>k\<close>. \<open>faulty k\<close>: interaction number \<open>k\<close>, if a user32 call, raises. \<open>unreleasing\<close>: the
  signal comes between startup and \<open>try\<close>, and the release call reports failure.
  \<open>defaults\<close>: no options; \<open>nudging\<close>: \<open>--mouse --interval 1\<close>; \<open>negative\<close>:
  \<open>--interval -5\<close>; \<open>huge\<close>: \<open>--interval 100000000000000000000\<close>.
\<close>

definition quiet :: env where
  "quiet = \<lparr>ste_result = (\<lambda>k. 0x80000003), user32 = (\<lambda>k. Done), signal_at = None,
             screen = (\<lambda>p. p), sleep_max = 9223372036\<rparr>"

definition refusing :: env where
  "refusing = quiet\<lparr>ste_result := (\<lambda>k. 0)\<rparr>"

definition interrupted :: "nat \<Rightarrow> env" where
  "interrupted k = quiet\<lparr>signal_at := Some k\<rparr>"

definition faulty :: "nat \<Rightarrow> env" where
  "faulty k = quiet\<lparr>user32 := (\<lambda>j. if j = k then Raises ''access denied'' else Done)\<rparr>"


definition defaults :: args where
  "defaults = \<lparr>mouse = False, interval = 60\<rparr>"

definition nudging :: args where
  "nudging = \<lparr>mouse = True, interval = 1\<rparr>"

definition negative :: args where
  "negative = \<lparr>mouse = False, interval = - 5\<rparr>"


section \<open>Basic facts\<close>

lemma trace_emit [simp]: "trace (emit e w) = trace w @ [e]"
  by (simp add: emit_def)

lemma cursor_emit [simp]: "cursor (emit e w) = cursor w"
  by (simp add: emit_def)

lemma ticks_emit [simp]: "ticks (emit e w) = ticks w"
  by (simp add: emit_def)

lemma emit_ticks [simp]: "emit e (w\<lparr>ticks := t\<rparr>) = (emit e w)\<lparr>ticks := t\<rparr>"
  by (simp add: emit_def)

lemma trace_boot [simp]: "trace (boot p) = []"
  by (simp add: boot_def)

lemma cursor_boot [simp]: "cursor (boot p) = p"
  by (simp add: boot_def)

lemma ticks_boot [simp]: "ticks (boot p) = 0"
  by (simp add: boot_def)

lemma releases_append [simp]: "releases (t @ u) = releases t + releases u"
  by (simp add: releases_def)

lemma releases_Nil [simp]: "releases [] = 0"
  by (simp add: releases_def)

lemma releases_Cons [simp]:
  "releases (e # t) = (if is_release e then Suc (releases t) else releases t)"
  by (simp add: releases_def)

lemma nudges_append [simp]: "nudges (t @ u) = nudges t + nudges u"
  by (simp add: nudges_def)

lemma flags_differ [simp]: "prevent_sleep_flags \<noteq> ES_CONTINUOUS"
  by (simp add: prevent_sleep_flags_def ES_CONTINUOUS_def ES_SYSTEM_REQUIRED_def
      ES_DISPLAY_REQUIRED_def)

lemma flags_differ' [simp]: "ES_CONTINUOUS \<noteq> prevent_sleep_flags"
  using flags_differ by (rule not_sym)

lemma prevent_sleep_flags_value: "prevent_sleep_flags = 0x80000003"
  by (simp add: prevent_sleep_flags_def ES_CONTINUOUS_def ES_SYSTEM_REQUIRED_def
      ES_DISPLAY_REQUIRED_def)

lemma accepted [simp]: "(0x80000003 :: u32) \<noteq> 0"
  by simp

lemma pause_fits [simp]: "\<not> of_nat n + 1 \<le> \<bar>5 / 100 :: rat\<bar>"
proof -
  have "(0 :: rat) \<le> of_nat n" by simp
  then show ?thesis by simp
qed

lemma interval_is_no_pause [simp]: "(of_int i :: rat) \<noteq> 5 / 100"
proof
  assume "(of_int i :: rat) = 5 / 100"
  then have "(of_int (20 * i) :: rat) = of_int 1" by simp
  then have "20 * i = 1" by (simp only: of_int_eq_iff)
  then show False by presburger
qed

lemma interval_fits:
  "of_nat m + 1 \<le> \<bar>of_int i :: rat\<bar> \<longleftrightarrow> int m < \<bar>i\<bar>"
proof -
  have "of_nat m + 1 \<le> \<bar>of_int i :: rat\<bar> \<longleftrightarrow> (of_int (int m + 1) :: rat) \<le> of_int \<bar>i\<bar>"
    by simp
  also have "\<dots> \<longleftrightarrow> int m + 1 \<le> \<bar>i\<bar>"
    by (simp only: of_int_le_iff)
  finally show ?thesis by auto
qed

lemma allow_sleep_eq:
  "allow_sleep E w = (Inr (), emit (ExecState ES_CONTINUOUS (ste_result E (length (trace w)))) w)"
  by (simp add: allow_sleep_def SetThreadExecutionState_def Let_def)

lemma on_exit_eq:
  "on_exit E w = (Inl (SystemExit 0),
     emit (ExecState ES_CONTINUOUS (ste_result E (Suc (length (trace w)))))
       (emit (Print (CHR 0x0A # ''[INFO] Restoring normal sleep settings...'')) w))"
  by (simp add: on_exit_def allow_sleep_def SetThreadExecutionState_def Let_def)

lemma then_do_cases:
  "then_do m f w = (r, w') \<Longrightarrow>
     (\<exists>e. m w = (Inl e, w') \<and> r = Inl e) \<or> (\<exists>x w1. m w = (Inr x, w1) \<and> f x w1 = (r, w'))"
  by (auto simp: then_do_def split: prod.splits sum.splits)

lemmas run_defs =
  main_def startup_def try_loop_finally_def cycle_def prevent_sleep_def nudge_mouse_def
  nudge_try_def then_do_def at_checkpoint_def proceed_def on_exit_eq allow_sleep_eq
  SetThreadExecutionState_def print_def sys_exit_def time_sleep_def
  user32_GetCursorPos_def user32_SetCursorPos_def emit_def boot_def

section \<open>Accounting lemmas\<close>

lemma accounted_trans:
  "accounted E w False w1 \<Longrightarrow> accounted E w1 h w2 \<Longrightarrow> accounted E w h w2"
  by (auto simp: accounted_def split: if_splits)

lemma accounted_refl [simp]: "accounted E w False w"
  by (simp add: accounted_def)

lemma proceed_accounted:
  "at_checkpoint E proceed w = (r, w') \<Longrightarrow> accounted E w (r = Inl (SystemExit 0)) w'"
  by (auto simp: at_checkpoint_def proceed_def on_exit_eq accounted_def split: if_splits)

lemma print_accounted:
  "at_checkpoint E (print s) w = (r, w') \<Longrightarrow> accounted E w (r = Inl (SystemExit 0)) w'"
  by (auto simp: at_checkpoint_def print_def on_exit_eq accounted_def split: if_splits)

lemma prevent_sleep_accounted:
  "prevent_sleep E w = (r, w') \<Longrightarrow> accounted E w (r = Inl (SystemExit 0)) w'"
  by (auto simp: prevent_sleep_def then_do_def at_checkpoint_def on_exit_eq accounted_def
      SetThreadExecutionState_def Let_def print_def sys_exit_def split: if_splits prod.splits)

lemma nudge_try_accounted:
  "nudge_try E w = (r, w') \<Longrightarrow> accounted E w (r = Inl (SystemExit 0)) w'"
  by (auto simp: nudge_try_def then_do_def at_checkpoint_def on_exit_eq accounted_def
      user32_GetCursorPos_def user32_SetCursorPos_def time_sleep_def
      split: if_splits prod.splits reply.splits)

lemma sleep_accounted:
  "at_checkpoint E (time_sleep E d) w = (r, w') \<Longrightarrow> accounted E w (r = Inl (SystemExit 0)) w'"
  by (auto simp: at_checkpoint_def on_exit_eq accounted_def time_sleep_def split: if_splits)

lemma nudge_mouse_accounted:
  "nudge_mouse E w = (r, w') \<Longrightarrow> accounted E w (r = Inl (SystemExit 0)) w'"
proof -
  assume run: "nudge_mouse E w = (r, w')"
  obtain r1 w1 where t: "nudge_try E w = (r1, w1)" by (cases "nudge_try E w")
  note a1 = nudge_try_accounted [OF t]
  show ?thesis
  proof (cases "\<exists>m. r1 = Inl (Error m)")
    case True
    then obtain m where m: "r1 = Inl (Error m)" by blast
    with a1 have b1: "accounted E w False w1" by simp
    from run t m have p: "at_checkpoint E (print (''[WARN] Mouse nudge failed: '' @ m)) w1 = (r, w')"
      by (simp add: nudge_mouse_def)
    from b1 print_accounted [OF p] show ?thesis by (rule accounted_trans)
  next
    case False
    with run t have "r = r1" "w' = w1"
      by (auto simp: nudge_mouse_def split: sum.splits exc.splits)
    with a1 show ?thesis by simp
  qed
qed


lemma cycle_accounted:
  "cycle E a w = (r, w') \<Longrightarrow> accounted E w (r = Inl (SystemExit 0)) w'"
proof -
  assume run: "cycle E a w = (r, w')"
  let ?nm = "if mouse a then nudge_mouse E else (\<lambda>w. (Inr (), w))"
  from run [unfolded cycle_def] have
    "(\<exists>e. prevent_sleep E w = (Inl e, w') \<and> r = Inl e)
     \<or> (\<exists>x w1. prevent_sleep E w = (Inr x, w1)
          \<and> then_do ?nm (\<lambda>_. at_checkpoint E (time_sleep E (of_int (interval a)))) w1 = (r, w'))"
    by (rule then_do_cases)
  then show ?thesis
  proof (elim disjE exE conjE)
    fix e assume "prevent_sleep E w = (Inl e, w')" "r = Inl e"
    then show ?thesis using prevent_sleep_accounted [of E w "Inl e" w'] by simp
  next
    fix x w1
    assume p: "prevent_sleep E w = (Inr x, w1)"
      and rest: "then_do ?nm (\<lambda>_. at_checkpoint E (time_sleep E (of_int (interval a)))) w1 = (r, w')"
    from prevent_sleep_accounted [OF p] have a1: "accounted E w False w1" by simp
    from then_do_cases [OF rest] have "accounted E w1 (r = Inl (SystemExit 0)) w'"
    proof (elim disjE exE conjE)
      fix e assume n: "?nm w1 = (Inl e, w')" and "r = Inl e"
      then show ?thesis
        using nudge_mouse_accounted [of E w1 "Inl e" w'] by (auto split: if_splits)
    next
      fix y w2
      assume n: "?nm w1 = (Inr y, w2)"
        and s: "at_checkpoint E (time_sleep E (of_int (interval a))) w2 = (r, w')"
      from n have a2: "accounted E w1 False w2"
        using nudge_mouse_accounted [of E w1 "Inr y" w2] by (auto split: if_splits)
      from a2 sleep_accounted [OF s] show ?thesis by (rule accounted_trans)
    qed
    with a1 show ?thesis by (rule accounted_trans)
  qed
qed

lemma loop_accounted:
  "loop E a n w = (r, w') \<Longrightarrow> accounted E w (r = Some (SystemExit 0)) w'"
proof (induction n arbitrary: w)
  case 0
  then show ?case by simp
next
  case (Suc n)
  obtain rc wc where c: "cycle E a w = (rc, wc)" by (cases "cycle E a w")
  note ac = cycle_accounted [OF c]
  show ?case
  proof (cases rc)
    case (Inl e)
    with Suc.prems c have "r = Some e" "w' = wc" by simp_all
    with ac Inl show ?thesis by simp
  next
    case (Inr u)
    with Suc.prems c have "loop E a n wc = (r, w')" by simp
    from Suc.IH [OF this] ac Inr show ?thesis by (auto intro: accounted_trans)
  qed
qed

lemma startup_accounted:
  "startup E a w = (r, w') \<Longrightarrow> accounted E w (r = Inl (SystemExit 0)) w'"
proof -
  assume run: "startup E a w = (r, w')"
  from then_do_cases [OF run [unfolded startup_def]] show ?thesis
  proof (elim disjE exE conjE)
    fix e assume "prevent_sleep E w = (Inl e, w')" "r = Inl e"
    then show ?thesis using prevent_sleep_accounted [of E w "Inl e" w'] by simp
  next
    fix x w1
    assume p: "prevent_sleep E w = (Inr x, w1)"
      and rest: "then_do (at_checkpoint E (print ''[INFO] Keep-alive active. Press Ctrl+C to stop.''))
         (\<lambda>_. if mouse a
               then at_checkpoint E
                      (print (''[INFO] Mouse nudge enabled every '' @ str_int (interval a) @ ''s.''))
               else (\<lambda>w. (Inr (), w))) w1 = (r, w')"
    from prevent_sleep_accounted [OF p] have a1: "accounted E w False w1" by simp
    from rest have "accounted E w1 (r = Inl (SystemExit 0)) w'"
      by (auto simp: then_do_def at_checkpoint_def on_exit_eq accounted_def print_def
          split: if_splits)
    with a1 show ?thesis by (rule accounted_trans)
  qed
qed

text \<open>Everything before \<open>try\<close>: the startup and the step to line 73.\<close>

lemma entry_accounted:
  "then_do (startup E a) (\<lambda>_. at_checkpoint E proceed) w = (r, w') \<Longrightarrow>
     accounted E w (r = Inl (SystemExit 0)) w'"
proof -
  assume run: "then_do (startup E a) (\<lambda>_. at_checkpoint E proceed) w = (r, w')"
  from then_do_cases [OF run] show ?thesis
  proof (elim disjE exE conjE)
    fix e assume "startup E a w = (Inl e, w')" "r = Inl e"
    then show ?thesis using startup_accounted [of E a w "Inl e" w'] by simp
  next
    fix x w1
    assume s: "startup E a w = (Inr x, w1)" and c: "at_checkpoint E proceed w1 = (r, w')"
    from startup_accounted [OF s] have "accounted E w False w1" by simp
    from this proceed_accounted [OF c] show ?thesis by (rule accounted_trans)
  qed
qed

section \<open>The ways out\<close>







section \<open>Release of the assertion on the exit paths\<close>




section \<open>The stages of a pass\<close>

lemma prevent_sleep_returns:
  assumes "prevent_sleep E w = (Inr u, w')"
  shows "ste_result E (length (trace w)) \<noteq> 0 \<and> signal_at E \<noteq> Some (ticks w)
       \<and> w' = emit (ExecState prevent_sleep_flags (ste_result E (length (trace w))))
                (w\<lparr>ticks := Suc (ticks w)\<rparr>)"
  using assms
  by (auto simp: prevent_sleep_def then_do_def at_checkpoint_def on_exit_eq
      SetThreadExecutionState_def Let_def print_def sys_exit_def split: if_splits prod.splits)

lemma prevent_sleep_succeeds:
  assumes "ste_result E (length (trace w)) \<noteq> 0" and "signal_at E \<noteq> Some (ticks w)"
  shows "prevent_sleep E w =
           (Inr (), emit (ExecState prevent_sleep_flags (ste_result E (length (trace w))))
                      (w\<lparr>ticks := Suc (ticks w)\<rparr>))"
  using assms
  by (simp add: prevent_sleep_def then_do_def at_checkpoint_def
      SetThreadExecutionState_def Let_def)

lemma prevent_sleep_raises:
  assumes "prevent_sleep E w = (Inl e, w')" and "ste_result E (length (trace w)) \<noteq> 0"
  shows "e = SystemExit 0"
  using assms
  by (auto simp: prevent_sleep_def then_do_def at_checkpoint_def on_exit_eq
      SetThreadExecutionState_def Let_def print_def sys_exit_def split: if_splits prod.splits)

lemma nudge_try_trace:
  assumes "nudge_try E w = (r, w')" and "r \<noteq> Inl (SystemExit 0)"
  shows "\<exists>ys. trace w' = trace w @ GetCursorPos # ys \<and> list_all nudge_tail ys
           \<and> GetCursorPos \<notin> set ys"
  using assms
  by (auto simp: nudge_try_def then_do_def at_checkpoint_def on_exit_eq
      user32_GetCursorPos_def user32_SetCursorPos_def time_sleep_def
      split: if_splits prod.splits reply.splits)

lemma nudge_try_raises:
  assumes "nudge_try E w = (Inl e, w')"
  shows "e = SystemExit 0 \<or> (\<exists>m. e = Error m)"
  by (cases e) (use assms in \<open>auto simp: nudge_try_def then_do_def at_checkpoint_def on_exit_eq
      user32_GetCursorPos_def user32_SetCursorPos_def time_sleep_def
      split: if_splits prod.splits reply.splits\<close>)

lemma warning_trace:
  assumes "at_checkpoint E (print s) w = (Inr u, w')"
  shows "signal_at E \<noteq> Some (ticks w) \<and> w' = emit (Print s) (w\<lparr>ticks := Suc (ticks w)\<rparr>)"
  using assms by (auto simp: at_checkpoint_def on_exit_eq print_def split: if_splits)

lemma nudge_mouse_raises:
  assumes "nudge_mouse E w = (Inl e, w')"
  shows "e = SystemExit 0"
proof -
  obtain r1 w1 where t: "nudge_try E w = (r1, w1)" by (cases "nudge_try E w")
  show ?thesis
  proof (cases r1)
    case (Inl e1)
    from nudge_try_raises [of E w e1 w1] t Inl
    consider "e1 = SystemExit 0" | m where "e1 = Error m" by auto
    then show ?thesis
    proof cases
      case 1
      with assms t Inl show ?thesis by (simp add: nudge_mouse_def)
    next
      case 2
      with assms t Inl show ?thesis
        by (auto simp: nudge_mouse_def at_checkpoint_def on_exit_eq print_def split: if_splits)
    qed
  next
    case (Inr u)
    with assms t show ?thesis by (simp add: nudge_mouse_def)
  qed
qed

lemma nudge_mouse_trace:
  assumes "nudge_mouse E w = (Inr u, w')"
  shows "\<exists>ys. trace w' = trace w @ GetCursorPos # ys \<and> list_all nudge_tail ys
           \<and> GetCursorPos \<notin> set ys"
proof -
  obtain r1 w1 where t: "nudge_try E w = (r1, w1)" by (cases "nudge_try E w")
  show ?thesis
  proof (cases "\<exists>m. r1 = Inl (Error m)")
    case True
    then obtain m where m: "r1 = Inl (Error m)" by blast
    with t have "\<exists>ys. trace w1 = trace w @ GetCursorPos # ys \<and> list_all nudge_tail ys
           \<and> GetCursorPos \<notin> set ys"
      by (intro nudge_try_trace [of E w r1 w1]) simp_all
    then obtain ys where ys: "trace w1 = trace w @ GetCursorPos # ys"
      "list_all nudge_tail ys" "GetCursorPos \<notin> set ys" by blast
    from assms t m have "at_checkpoint E (print (''[WARN] Mouse nudge failed: '' @ m)) w1 = (Inr u, w')"
      by (simp add: nudge_mouse_def)
    from warning_trace [OF this]
    have "trace w' = trace w1 @ [Print (''[WARN] Mouse nudge failed: '' @ m)]"
      by simp
    with ys show ?thesis by simp
  next
    case False
    with assms t have "r1 = Inr u" "w' = w1"
      by (auto simp: nudge_mouse_def split: sum.splits exc.splits)
    with t show ?thesis by (intro nudge_try_trace [of E w r1 w']) simp_all
  qed
qed

lemma sleep_returns:
  assumes "at_checkpoint E (time_sleep E d) w = (Inr u, w')"
  shows "0 \<le> d \<and> \<not> of_nat (sleep_max E) + 1 \<le> \<bar>d\<bar> \<and> signal_at E \<noteq> Some (ticks w)
       \<and> w' = emit (Sleep d) (w\<lparr>ticks := Suc (ticks w)\<rparr>)"
  using assms by (auto simp: at_checkpoint_def on_exit_eq time_sleep_def split: if_splits)

lemma sleep_raises:
  assumes "at_checkpoint E (time_sleep E d) w = (Inl e, w')"
  shows "e = SystemExit 0
       \<or> ((d < 0 \<or> of_nat (sleep_max E) + 1 \<le> \<bar>d\<bar>) \<and> (\<exists>m. e = Error m)
           \<and> signal_at E \<noteq> Some (ticks w)
           \<and> w' = emit (Sleep d) (w\<lparr>ticks := Suc (ticks w)\<rparr>))"
  using assms by (auto simp: at_checkpoint_def on_exit_eq time_sleep_def split: if_splits)

lemma sleep_fails:
  assumes "d < 0 \<or> of_nat (sleep_max E) + 1 \<le> \<bar>d\<bar>" and "signal_at E \<noteq> Some (ticks w)"
  shows "\<exists>m. at_checkpoint E (time_sleep E d) w
             = (Inl (Error m), emit (Sleep d) (w\<lparr>ticks := Suc (ticks w)\<rparr>))"
  using assms by (auto simp: at_checkpoint_def time_sleep_def)

text \<open>The three stages of a pass, read off a completed pass.\<close>

lemma cycle_returns:
  assumes "cycle E a w = (Inr u, w')"
  shows "\<exists>r mid. trace w' = trace w @ ExecState prevent_sleep_flags r # mid
                     @ [Sleep (of_int (interval a))]
           \<and> r = ste_result E (length (trace w)) \<and> r \<noteq> 0 \<and> 0 \<le> interval a
           \<and> interval a \<le> int (sleep_max E)
           \<and> ticks w + 2 \<le> ticks w'
           \<and> (if mouse a
               then \<exists>ys. mid = GetCursorPos # ys \<and> list_all nudge_tail ys
                      \<and> GetCursorPos \<notin> set ys
               else mid = [] \<and> cursor w' = cursor w)"
proof -
  let ?nm = "if mouse a then nudge_mouse E else (\<lambda>w. (Inr (), w))"
  from then_do_cases [OF assms [unfolded cycle_def]]
  obtain x w1 where p: "prevent_sleep E w = (Inr x, w1)"
    and rest: "then_do ?nm (\<lambda>_. at_checkpoint E (time_sleep E (of_int (interval a)))) w1 = (Inr u, w')"
    by auto
  from then_do_cases [OF rest]
  obtain y w2 where n: "?nm w1 = (Inr y, w2)"
    and s: "at_checkpoint E (time_sleep E (of_int (interval a))) w2 = (Inr u, w')"
    by auto
  note P = prevent_sleep_returns [OF p]
  note S = sleep_returns [OF s]
  from S have iv: "0 \<le> interval a" "interval a \<le> int (sleep_max E)"
    by (auto simp: interval_fits)
  have t12: "ticks w1 \<le> ticks w2"
    using n nudge_mouse_accounted [of E w1 "Inr y" w2]
    by (auto simp: accounted_def split: if_splits)
  from P S t12 have tk: "ticks w + 2 \<le> ticks w'" by simp
  show ?thesis
  proof (cases "mouse a")
    case True
    with n have "nudge_mouse E w1 = (Inr y, w2)" by simp
    from nudge_mouse_trace [OF this] obtain ys where
      "trace w2 = trace w1 @ GetCursorPos # ys" "list_all nudge_tail ys"
      "GetCursorPos \<notin> set ys" by blast
    with P S True iv tk show ?thesis by simp
  next
    case False
    with n have "w2 = w1" by simp
    with P S False iv tk show ?thesis by simp
  qed
qed

lemma cycle_raises:
  assumes "cycle E a w = (Inl e, w')"
    and "ste_result E (length (trace w)) \<noteq> 0"
    and "0 \<le> interval a" and "interval a \<le> int (sleep_max E)"
  shows "e = SystemExit 0"
proof -
  let ?nm = "if mouse a then nudge_mouse E else (\<lambda>w. (Inr (), w))"
  from then_do_cases [OF assms(1) [unfolded cycle_def]] show ?thesis
  proof (elim disjE exE conjE)
    fix e' assume "prevent_sleep E w = (Inl e', w')" "Inl e = (Inl e' :: exc + unit)"
    with assms(2) show ?thesis using prevent_sleep_raises [of E w e w'] by simp
  next
    fix x w1
    assume rest: "then_do ?nm (\<lambda>_. at_checkpoint E (time_sleep E (of_int (interval a)))) w1 = (Inl e, w')"
    from then_do_cases [OF rest] show ?thesis
    proof (elim disjE exE conjE)
      fix e' assume "?nm w1 = (Inl e', w')" "Inl e = (Inl e' :: exc + unit)"
      then show ?thesis using nudge_mouse_raises [of E w1 e w'] by (auto split: if_splits)
    next
      fix y w2
      assume "at_checkpoint E (time_sleep E (of_int (interval a))) w2 = (Inl e, w')"
      from sleep_raises [OF this] assms(3,4) show ?thesis by (auto simp: interval_fits)
    qed
  qed
qed

section \<open>Startup and the loop\<close>

lemma startup_returns:
  assumes "startup E a w = (Inr u, w')"
  shows "ste_result E (length (trace w)) \<noteq> 0 \<and> cursor w' = cursor w
       \<and> ticks w' = ticks w + (if mouse a then 3 else 2)
       \<and> trace w' = trace w @
           [ExecState prevent_sleep_flags (ste_result E (length (trace w))),
            Print ''[INFO] Keep-alive active. Press Ctrl+C to stop.'']
           @ (if mouse a
              then [Print (''[INFO] Mouse nudge enabled every '' @ str_int (interval a) @ ''s.'')]
              else [])"
proof -
  from then_do_cases [OF assms [unfolded startup_def]]
  obtain x w1 where p: "prevent_sleep E w = (Inr x, w1)"
    and rest: "then_do (at_checkpoint E (print ''[INFO] Keep-alive active. Press Ctrl+C to stop.''))
         (\<lambda>_. if mouse a
               then at_checkpoint E
                      (print (''[INFO] Mouse nudge enabled every '' @ str_int (interval a) @ ''s.''))
               else (\<lambda>w. (Inr (), w))) w1 = (Inr u, w')"
    by auto
  note P = prevent_sleep_returns [OF p]
  from rest have "cursor w' = cursor w1 \<and> ticks w' = ticks w1 + (if mouse a then 2 else 1)
      \<and> trace w' = trace w1 @
      Print ''[INFO] Keep-alive active. Press Ctrl+C to stop.''
      # (if mouse a
         then [Print (''[INFO] Mouse nudge enabled every '' @ str_int (interval a) @ ''s.'')]
         else [])"
    by (auto simp: then_do_def at_checkpoint_def on_exit_eq print_def split: if_splits)
  with P show ?thesis by simp
qed

lemma startup_raises:
  assumes "startup E a w = (Inl e, w')" and "ste_result E (length (trace w)) \<noteq> 0"
  shows "e = SystemExit 0"
proof -
  from then_do_cases [OF assms(1) [unfolded startup_def]] show ?thesis
  proof (elim disjE exE conjE)
    fix e' assume "prevent_sleep E w = (Inl e', w')" "Inl e = (Inl e' :: exc + unit)"
    with assms(2) show ?thesis using prevent_sleep_raises [of E w e w'] by simp
  next
    fix x w1
    assume "then_do (at_checkpoint E (print ''[INFO] Keep-alive active. Press Ctrl+C to stop.''))
         (\<lambda>_. if mouse a
               then at_checkpoint E
                      (print (''[INFO] Mouse nudge enabled every '' @ str_int (interval a) @ ''s.''))
               else (\<lambda>w. (Inr (), w))) w1 = (Inl e, w')"
    then show ?thesis
      by (auto simp: then_do_def at_checkpoint_def on_exit_eq print_def split: if_splits)
  qed
qed

text \<open>
  The entry to \<open>try\<close>: when it is reached, the trace is that of a completed startup
  and three checkpoints (four with \<open>--mouse\<close>) lie behind.
\<close>

lemma entry_returns:
  assumes "then_do (startup E a) (\<lambda>_. at_checkpoint E proceed) (boot p) = (Inr u, w')"
  shows "ste_result E 0 \<noteq> 0 \<and> cursor w' = p \<and> trace w' = startup_trace E a
       \<and> ticks w' = (if mouse a then 4 else 3)"
proof -
  from then_do_cases [OF assms]
  obtain x w1 where s: "startup E a (boot p) = (Inr x, w1)"
    and c: "at_checkpoint E proceed w1 = (Inr u, w')"
    by auto
  from c have "w' = w1\<lparr>ticks := Suc (ticks w1)\<rparr>"
    by (auto simp: at_checkpoint_def on_exit_eq proceed_def split: if_splits)
  with startup_returns [OF s] show ?thesis by (simp add: startup_trace_def)
qed

lemma entry_raises:
  assumes "then_do (startup E a) (\<lambda>_. at_checkpoint E proceed) w = (Inl e, w')"
    and "ste_result E (length (trace w)) \<noteq> 0"
  shows "e = SystemExit 0"
proof -
  from then_do_cases [OF assms(1)] show ?thesis
  proof (elim disjE exE conjE)
    fix e' assume "startup E a w = (Inl e', w')" "Inl e = (Inl e' :: exc + unit)"
    with assms(2) show ?thesis using startup_raises [of E a w e w'] by simp
  next
    fix x w1
    assume "at_checkpoint E proceed w1 = (Inl e, w')"
    then show ?thesis
      by (auto simp: at_checkpoint_def proceed_def on_exit_eq split: if_splits)
  qed
qed

lemma cycle_shape_intro:
  assumes "r \<noteq> 0"
    and "if mouse a then \<exists>ys. mid = GetCursorPos # ys \<and> list_all nudge_tail ys else mid = []"
  shows "cycle_shape a (ExecState prevent_sleep_flags r # mid @ [Sleep (of_int (interval a))])"
  using assms by (auto simp: cycle_shape_def butlast_append split: if_splits)

lemma cycle_returns_shape:
  assumes "cycle E a w = (Inr u, w')"
  shows "\<exists>c. trace w' = trace w @ c \<and> cycle_shape a c
         \<and> nudges c = (if mouse a then 1 else 0) \<and> ticks w + 2 \<le> ticks w'"
proof -
  from cycle_returns [OF assms] obtain r mid where
    t: "trace w' = trace w @ ExecState prevent_sleep_flags r # mid @ [Sleep (of_int (interval a))]"
    and r: "r \<noteq> 0" and tk: "ticks w + 2 \<le> ticks w'"
    and m: "if mouse a
            then \<exists>ys. mid = GetCursorPos # ys \<and> list_all nudge_tail ys \<and> GetCursorPos \<notin> set ys
            else mid = [] \<and> cursor w' = cursor w"
    by blast
  from m have m': "if mouse a then \<exists>ys. mid = GetCursorPos # ys \<and> list_all nudge_tail ys else mid = []"
    by (auto split: if_splits)
  have n: "nudges (ExecState prevent_sleep_flags r # mid @ [Sleep (of_int (interval a))])
           = (if mouse a then 1 else 0)"
    using m by (auto simp: nudges_def filter_empty_conv split: if_splits)
  from t cycle_shape_intro [OF r m'] n tk show ?thesis by auto
qed

lemma loop_running:
  assumes "loop E a n w = (None, w')"
  shows "\<exists>cs. trace w' = trace w @ concat cs \<and> length cs = n \<and> list_all (cycle_shape a) cs
           \<and> nudges (concat cs) = (if mouse a then n else 0)
           \<and> ticks w + 2 * n \<le> ticks w'"
  using assms
proof (induction n arbitrary: w)
  case 0
  then show ?case by (simp add: nudges_def)
next
  case (Suc n)
  obtain rc wc where c: "cycle E a w = (rc, wc)" by (cases "cycle E a w")
  show ?case
  proof (cases rc)
    case (Inl e)
    with Suc.prems c show ?thesis by simp
  next
    case (Inr u)
    with Suc.prems c have l: "loop E a n wc = (None, w')" by simp
    from c Inr have "cycle E a w = (Inr u, wc)" by simp
    from cycle_returns_shape [OF this] obtain c1 where
      c1: "trace wc = trace w @ c1" "cycle_shape a c1"
          "nudges c1 = (if mouse a then 1 else 0)" "ticks w + 2 \<le> ticks wc"
      by blast
    from Suc.IH [OF l] obtain cs where
      cs: "trace w' = trace wc @ concat cs" "length cs = n" "list_all (cycle_shape a) cs"
          "nudges (concat cs) = (if mouse a then n else 0)"
          "ticks wc + 2 * n \<le> ticks w'"
      by blast
    from c1 cs have "trace w' = trace w @ concat (c1 # cs) \<and> length (c1 # cs) = Suc n
        \<and> list_all (cycle_shape a) (c1 # cs)
        \<and> nudges (concat (c1 # cs)) = (if mouse a then Suc n else 0)
        \<and> ticks w + 2 * Suc n \<le> ticks w'"
      by auto
    then show ?thesis by blast
  qed
qed

lemma loop_raises:
  assumes "loop E a n w = (Some e, w')"
    and "\<forall>j. ste_result E j \<noteq> 0" and "0 \<le> interval a" and "interval a \<le> int (sleep_max E)"
  shows "e = SystemExit 0"
  using assms(1)
proof (induction n arbitrary: w)
  case 0
  then show ?case by simp
next
  case (Suc n)
  obtain rc wc where c: "cycle E a w = (rc, wc)" by (cases "cycle E a w")
  show ?case
  proof (cases rc)
    case (Inl e1)
    with Suc.prems c have "cycle E a w = (Inl e, wc)" by simp
    from cycle_raises [OF this] assms(2,3,4) show ?thesis by simp
  next
    case (Inr u)
    with Suc.prems c have "loop E a n wc = (Some e, w')" by simp
    from Suc.IH [OF this] show ?thesis .
  qed
qed

lemma loop_never_leaves:
  assumes "signal_at E = None" and "\<forall>j. ste_result E j \<noteq> 0"
    and "0 \<le> interval a" and "interval a \<le> int (sleep_max E)"
  shows "fst (loop E a n w) = None"
proof (cases "loop E a n w")
  case (Pair r w')
  show ?thesis
  proof (cases r)
    case None
    with Pair show ?thesis by simp
  next
    case (Some e)
    with Pair have l: "loop E a n w = (Some e, w')" by simp
    from loop_raises [OF l assms(2,3,4)] have "e = SystemExit 0" .
    with loop_accounted [OF l] assms(1) show ?thesis by (simp add: accounted_def)
  qed
qed


section \<open>Whole runs\<close>

lemma nudges_startup_trace [simp]: "nudges (startup_trace E a) = 0"
  by (simp add: startup_trace_def nudges_def)

lemma releases_startup_trace [simp]: "releases (startup_trace E a) = 0"
  by (simp add: startup_trace_def)

lemma main_running:
  assumes "main E a n (boot p) = (None, w')"
  shows "ste_result E 0 \<noteq> 0
       \<and> (\<exists>cs. trace w' = startup_trace E a @ concat cs \<and> length cs = n
              \<and> list_all (cycle_shape a) cs
              \<and> nudges (trace w') = (if mouse a then n else 0))"
proof -
  let ?entry = "then_do (startup E a) (\<lambda>_. at_checkpoint E proceed)"
  obtain r w1 where s: "?entry (boot p) = (r, w1)" by (cases "?entry (boot p)")
  show ?thesis
  proof (cases r)
    case (Inl e)
    with assms s show ?thesis by (simp add: main_def)
  next
    case (Inr u)
    with s have s': "?entry (boot p) = (Inr u, w1)" by simp
    from entry_returns [OF s'] have ok: "ste_result E 0 \<noteq> 0"
      and t1: "trace w1 = startup_trace E a"
      by simp_all
    from assms s Inr have "try_loop_finally E a n w1 = (None, w')" by (simp add: main_def)
    then have "loop E a n w1 = (None, w')"
      by (auto simp: try_loop_finally_def split: prod.splits option.splits sum.splits)
    from loop_running [OF this] t1 ok show ?thesis by auto
  qed
qed



lemma finally_running:
  "fst (try_loop_finally E a n w) = None \<longleftrightarrow> fst (loop E a n w) = None"
  by (auto simp: try_loop_finally_def split: prod.splits option.splits sum.splits)

lemma main_never_leaves:
  assumes "signal_at E = None" and "\<forall>j. ste_result E j \<noteq> 0"
    and "0 \<le> interval a" and "interval a \<le> int (sleep_max E)"
  shows "fst (main E a n (boot p)) = None"
proof -
  let ?entry = "then_do (startup E a) (\<lambda>_. at_checkpoint E proceed)"
  obtain r w1 where s: "?entry (boot p) = (r, w1)" by (cases "?entry (boot p)")
  show ?thesis
  proof (cases r)
    case (Inl e)
    with s have s': "?entry (boot p) = (Inl e, w1)" by simp
    from entry_raises [OF s'] assms(2) have "e = SystemExit 0" by simp
    with entry_accounted [OF s'] assms(1) show ?thesis by (simp add: accounted_def)
  next
    case (Inr u)
    with s have "fst (main E a n (boot p)) = fst (try_loop_finally E a n w1)"
      by (simp add: main_def)
    with loop_never_leaves [OF assms, of n w1] show ?thesis by (simp add: finally_running)
  qed
qed



section \<open>Sample runs\<close>

lemma str_int_1: "str_int 1 = ''1''"
  by code_simp



lemma main_quiet_nudging:
  "main quiet nudging (Suc (Suc 0)) (boot (5, 7)) =
    (None,
     \<lparr>trace =
        [ExecState prevent_sleep_flags 0x80000003,
         Print ''[INFO] Keep-alive active. Press Ctrl+C to stop.'',
         Print ''[INFO] Mouse nudge enabled every 1s.'',
         ExecState prevent_sleep_flags 0x80000003, GetCursorPos, SetCursorPos 6 7,
         Sleep (5 / 100), SetCursorPos 5 7, Sleep 1,
         ExecState prevent_sleep_flags 0x80000003, GetCursorPos, SetCursorPos 6 7,
         Sleep (5 / 100), SetCursorPos 5 7, Sleep 1],
      cursor = (5, 7), ticks = 16\<rparr>)"
  by (simp add: run_defs quiet_def nudging_def str_int_1)

lemma main_quiet_negative:
  "main quiet negative (Suc 0) (boot (5, 7)) =
    (Some (Error ''sleep length must be non-negative''),
     \<lparr>trace =
        [ExecState prevent_sleep_flags 0x80000003,
         Print ''[INFO] Keep-alive active. Press Ctrl+C to stop.'',
         ExecState prevent_sleep_flags 0x80000003, Sleep (- 5),
         ExecState ES_CONTINUOUS 0x80000003],
      cursor = (5, 7), ticks = 7\<rparr>)"
  by (simp add: run_defs quiet_def negative_def)



section \<open>Signal-triggered shutdown\<close>




section \<open>Failure of the initial assertion\<close>

lemma is_assert_flags [simp]: "\<not> is_assert (ExecState ES_CONTINUOUS r)"
  by simp

text \<open>
  Claim C3: if the first \<open>SetThreadExecutionState\<close> call (line 68, through
  \<open>prevent_sleep\<close>) returns 0, the process ends whatever the number of passes allowed:
  the loop is never entered (no sleep is ever requested) and the call is not retried
  (the trace holds exactly one assertion call). Unless the signal is handled in between
  (before the error line or before \<open>sys.exit(1)\<close>), the exit status is 1 and the run
  consists of the failed call and the error line.
\<close>

theorem startup_failure_is_fatal:
  assumes "ste_result E 0 = 0" and "signal_at E \<noteq> Some 0"
  shows "\<exists>e w'. (\<forall>n. main E a n (boot p) = (Some e, w'))
           \<and> length (filter is_assert (trace w')) = 1
           \<and> (\<forall>d. Sleep d \<notin> set (trace w'))
           \<and> (signal_at E \<noteq> Some 1 \<and> signal_at E \<noteq> Some 2 \<longrightarrow>
                e = SystemExit 1 \<and> exit_status e = 1
                \<and> trace w' = [ExecState prevent_sleep_flags 0,
                     Print ''[ERROR] SetThreadExecutionState failed. Are you on Windows?''])"
proof -
  consider (one) "signal_at E = Some (Suc 0)" | (two) "signal_at E = Some (Suc (Suc 0))"
    | (none) "signal_at E \<noteq> Some (Suc 0)" "signal_at E \<noteq> Some (Suc (Suc 0))"
    by blast
  then show ?thesis
  proof cases
    case one
    have "\<forall>n. main E a n (boot p) =
        (Some (SystemExit 0),
         \<lparr>trace = [ExecState prevent_sleep_flags 0,
                    Print (CHR 0x0A # ''[INFO] Restoring normal sleep settings...''),
                    ExecState ES_CONTINUOUS (ste_result E (Suc (Suc 0)))],
          cursor = p, ticks = Suc (Suc 0)\<rparr>)"
      using assms one by (simp add: run_defs)
    then show ?thesis
      by (intro exI conjI, assumption) (simp_all add: one)
  next
    case two
    have "\<forall>n. main E a n (boot p) =
        (Some (SystemExit 0),
         \<lparr>trace = [ExecState prevent_sleep_flags 0,
                    Print ''[ERROR] SetThreadExecutionState failed. Are you on Windows?'',
                    Print (CHR 0x0A # ''[INFO] Restoring normal sleep settings...''),
                    ExecState ES_CONTINUOUS (ste_result E (Suc (Suc (Suc 0))))],
          cursor = p, ticks = Suc (Suc (Suc 0))\<rparr>)"
      using assms two by (simp add: run_defs)
    then show ?thesis
      by (intro exI conjI, assumption) (simp_all add: two)
  next
    case none
    have "\<forall>n. main E a n (boot p) =
        (Some (SystemExit 1),
         \<lparr>trace = [ExecState prevent_sleep_flags 0,
                    Print ''[ERROR] SetThreadExecutionState failed. Are you on Windows?''],
          cursor = p, ticks = Suc (Suc (Suc 0))\<rparr>)"
      using assms none by (simp add: run_defs)
    then show ?thesis
      by (intro exI conjI, assumption) simp_all
  qed
qed

theorem startup_failure_is_fatal_witness:
  "\<exists>e w'. (\<forall>n. main refusing defaults n (boot (0, 0)) = (Some e, w'))
         \<and> length (filter is_assert (trace w')) = 1
         \<and> (\<forall>d. Sleep d \<notin> set (trace w'))
         \<and> e = SystemExit 1 \<and> exit_status e = 1
         \<and> trace w' = [ExecState prevent_sleep_flags 0,
              Print ''[ERROR] SetThreadExecutionState failed. Are you on Windows?'']"
  using startup_failure_is_fatal [of refusing defaults "(0, 0)"]
  by (simp add: refusing_def quiet_def)

section \<open>Runs without \<open>--mouse\<close>\<close>

lemma nudge_event_simps [simp]:
  "\<not> nudge_event (ExecState f r)"
  "nudge_event GetCursorPos"
  "nudge_event (SetCursorPos x y)"
  "nudge_event (Print s) = (take 27 s = ''[WARN] Mouse nudge failed: '')"
  by (simp_all add: nudge_event_def)

lemma nudge_event_interval [simp]: "\<not> nudge_event (Sleep (of_int i))"
  using interval_is_no_pause [of i] by (simp add: nudge_event_def)

lemma then_do_skip [simp]: "then_do (\<lambda>w. (Inr x, w)) f = f x"
  by (simp add: then_do_def fun_eq_iff)

lemma then_do_return [simp]: "then_do m (\<lambda>_ w. (Inr (), w)) = (m :: unit io)"
  by (auto simp: then_do_def fun_eq_iff split: prod.splits sum.splits)

lemma nudges_le_nudge_events: "nudges t \<le> length (filter nudge_event t)"
  by (induction t) (simp_all add: nudges_def)

lemma prevent_sleep_untouched:
  assumes "prevent_sleep E w = (r, w')"
  shows "filter nudge_event (trace w') = filter nudge_event (trace w) \<and> cursor w' = cursor w"
  using assms
  by (auto simp: prevent_sleep_def then_do_def at_checkpoint_def on_exit_eq
      SetThreadExecutionState_def Let_def print_def sys_exit_def split: if_splits prod.splits)

lemma sleep_untouched:
  assumes "at_checkpoint E (time_sleep E (of_int i)) w = (r, w')"
  shows "filter nudge_event (trace w') = filter nudge_event (trace w) \<and> cursor w' = cursor w"
  using assms
  by (auto simp: at_checkpoint_def on_exit_eq time_sleep_def split: if_splits)

lemma proceed_untouched:
  assumes "at_checkpoint E proceed w = (r, w')"
  shows "filter nudge_event (trace w') = filter nudge_event (trace w) \<and> cursor w' = cursor w"
  using assms
  by (auto simp: at_checkpoint_def on_exit_eq proceed_def split: if_splits)

lemma release_untouched:
  assumes "at_checkpoint E (allow_sleep E) w = (r, w')"
  shows "filter nudge_event (trace w') = filter nudge_event (trace w) \<and> cursor w' = cursor w"
  using assms
  by (auto simp: at_checkpoint_def on_exit_eq allow_sleep_eq split: if_splits)

lemma cycle_untouched:
  assumes "\<not> mouse a" and "cycle E a w = (r, w')"
  shows "filter nudge_event (trace w') = filter nudge_event (trace w) \<and> cursor w' = cursor w"
proof -
  from assms have run: "then_do (prevent_sleep E)
      (\<lambda>_. at_checkpoint E (time_sleep E (of_int (interval a)))) w = (r, w')"
    by (simp add: cycle_def)
  from then_do_cases [OF run] show ?thesis
  proof (elim disjE exE conjE)
    fix e assume "prevent_sleep E w = (Inl e, w')"
    then show ?thesis by (rule prevent_sleep_untouched)
  next
    fix x w1
    assume "prevent_sleep E w = (Inr x, w1)"
      and "at_checkpoint E (time_sleep E (of_int (interval a))) w1 = (r, w')"
    from prevent_sleep_untouched [OF this(1)] sleep_untouched [OF this(2)]
    show ?thesis by simp
  qed
qed

lemma loop_untouched:
  assumes "\<not> mouse a" and "loop E a n w = (r, w')"
  shows "filter nudge_event (trace w') = filter nudge_event (trace w) \<and> cursor w' = cursor w"
  using assms(2)
proof (induction n arbitrary: w)
  case 0
  then show ?case by simp
next
  case (Suc n)
  obtain rc wc where c: "cycle E a w = (rc, wc)" by (cases "cycle E a w")
  note u = cycle_untouched [OF assms(1) c]
  show ?case
  proof (cases rc)
    case (Inl e)
    with Suc.prems c have "w' = wc" by simp
    with u show ?thesis by simp
  next
    case (Inr x)
    with Suc.prems c have "loop E a n wc = (r, w')" by simp
    from Suc.IH [OF this] u show ?thesis by simp
  qed
qed

lemma finally_block_untouched:
  assumes "then_do (at_checkpoint E (allow_sleep E)) (\<lambda>_. at_checkpoint E proceed) w = (r, w')"
  shows "filter nudge_event (trace w') = filter nudge_event (trace w) \<and> cursor w' = cursor w"
proof -
  from then_do_cases [OF assms] show ?thesis
  proof (elim disjE exE conjE)
    fix e assume "at_checkpoint E (allow_sleep E) w = (Inl e, w')"
    then show ?thesis by (rule release_untouched)
  next
    fix x w1
    assume "at_checkpoint E (allow_sleep E) w = (Inr x, w1)"
      and "at_checkpoint E proceed w1 = (r, w')"
    from release_untouched [OF this(1)] proceed_untouched [OF this(2)]
    show ?thesis by simp
  qed
qed

lemma finally_untouched:
  assumes "\<not> mouse a" and "try_loop_finally E a n w = (r, w')"
  shows "filter nudge_event (trace w') = filter nudge_event (trace w) \<and> cursor w' = cursor w"
proof -
  obtain r0 w0 where l: "loop E a n w = (r0, w0)" by (cases "loop E a n w")
  note u = loop_untouched [OF assms(1) l]
  let ?fin = "then_do (at_checkpoint E (allow_sleep E)) (\<lambda>_. at_checkpoint E proceed)"
  obtain r1 w1 where f: "?fin w0 = (r1, w1)" by (cases "?fin w0")
  show ?thesis
  proof (cases r0)
    case None
    with assms(2) l have "w' = w0" by (simp add: try_loop_finally_def)
    with u show ?thesis by simp
  next
    case (Some e)
    with assms(2) l f have "w' = w1"
      by (auto simp: try_loop_finally_def split: sum.splits)
    with finally_block_untouched [OF f] u show ?thesis by simp
  qed
qed

lemma startup_untouched:
  assumes "\<not> mouse a" and "startup E a w = (r, w')"
  shows "filter nudge_event (trace w') = filter nudge_event (trace w) \<and> cursor w' = cursor w"
proof -
  from assms have run: "then_do (prevent_sleep E)
      (\<lambda>_. at_checkpoint E (print ''[INFO] Keep-alive active. Press Ctrl+C to stop.'')) w
        = (r, w')"
    by (simp add: startup_def)
  from then_do_cases [OF run] show ?thesis
  proof (elim disjE exE conjE)
    fix e assume "prevent_sleep E w = (Inl e, w')"
    then show ?thesis by (rule prevent_sleep_untouched)
  next
    fix x w1
    assume "prevent_sleep E w = (Inr x, w1)"
      and "at_checkpoint E (print ''[INFO] Keep-alive active. Press Ctrl+C to stop.'') w1 = (r, w')"
    from prevent_sleep_untouched [OF this(1)] this(2)
    show ?thesis
      by (auto simp: at_checkpoint_def on_exit_eq print_def split: if_splits)
  qed
qed

lemma main_untouched:
  assumes "\<not> mouse a" and "main E a n w = (r, w')"
  shows "filter nudge_event (trace w') = filter nudge_event (trace w) \<and> cursor w' = cursor w"
proof -
  let ?entry = "then_do (startup E a) (\<lambda>_. at_checkpoint E proceed)"
  obtain r1 w1 where s: "?entry w = (r1, w1)" by (cases "?entry w")
  have u: "filter nudge_event (trace w1) = filter nudge_event (trace w) \<and> cursor w1 = cursor w"
    using then_do_cases [OF s]
  proof (elim disjE exE conjE)
    fix e assume "startup E a w = (Inl e, w1)"
    from startup_untouched [OF assms(1) this] show ?thesis .
  next
    fix x w0
    assume "startup E a w = (Inr x, w0)" and "at_checkpoint E proceed w0 = (r1, w1)"
    from startup_untouched [OF assms(1) this(1)] proceed_untouched [OF this(2)]
    show ?thesis by simp
  qed
  show ?thesis
  proof (cases r1)
    case (Inl e)
    with assms(2) s have "w' = w1" by (simp add: main_def)
    with u show ?thesis by simp
  next
    case (Inr x)
    with assms(2) s have "try_loop_finally E a n w1 = (r, w')" by (simp add: main_def)
    from finally_untouched [OF assms(1) this] u show ?thesis by simp
  qed
qed

text \<open>
  Claim C4: without \<open>--mouse\<close>, whatever the environment does and however many passes
  the loop makes, \<open>nudge_mouse\<close> is never invoked: the run contains no \<open>GetCursorPos\<close>
  and nothing else that \<open>nudge_mouse\<close> could do (no \<open>SetCursorPos\<close>, no pause of 0.05 s,
  no warning line), and the pointer stays where it was.
\<close>

theorem no_nudge_without_mouse:
  assumes "\<not> mouse a"
  shows "nudges (trace (snd (main E a n (boot p)))) = 0
       \<and> filter nudge_event (trace (snd (main E a n (boot p)))) = []
       \<and> cursor (snd (main E a n (boot p))) = p"
proof -
  obtain r w' where run: "main E a n (boot p) = (r, w')" by (cases "main E a n (boot p)")
  from main_untouched [OF assms run]
  have f: "filter nudge_event (trace w') = []" and c: "cursor w' = p" by simp_all
  from nudges_le_nudge_events [of "trace w'"] f have "nudges (trace w') = 0" by simp
  with f c run show ?thesis by simp
qed

theorem no_nudge_without_mouse_witness:
  "nudges (trace (snd (main (interrupted 5) defaults (Suc (Suc 0)) (boot (0, 0))))) = 0
   \<and> cursor (snd (main (interrupted 5) defaults (Suc (Suc 0)) (boot (0, 0)))) = (0, 0)"
  using no_nudge_without_mouse [of defaults "interrupted 5" "Suc (Suc 0)" "(0, 0)"]
  by (simp add: defaults_def)

section \<open>Runs with \<open>--mouse\<close>\<close>

lemma nudge_try_round_trip:
  assumes "\<forall>j. user32 E j = Done"
    and "\<forall>k. signal_at E = Some k \<longrightarrow> k < ticks w \<or> ticks w + 4 \<le> k"
  shows "nudge_try E w =
     (Inr (),
      w\<lparr>trace := trace w @
           [GetCursorPos,
            SetCursorPos (sint (fst (cursor w)) + 1) (sint (snd (cursor w))),
            Sleep (5 / 100),
            SetCursorPos (sint (fst (cursor w))) (sint (snd (cursor w)))],
        cursor := screen E (cursor w),
        ticks := ticks w + 4\<rparr>)"
proof -
  from assms(2) have s: "signal_at E \<noteq> Some (ticks w)" "signal_at E \<noteq> Some (Suc (ticks w))"
    "signal_at E \<noteq> Some (Suc (Suc (ticks w)))" "signal_at E \<noteq> Some (Suc (Suc (Suc (ticks w))))"
    by auto
  show ?thesis
    using assms(1) s
    by (simp add: nudge_try_def then_do_def at_checkpoint_def user32_GetCursorPos_def
        user32_SetCursorPos_def time_sleep_def emit_def)
qed

text \<open>
  Claim C5: with \<open>--mouse\<close>, a run of \<open>n\<close> completed passes holds exactly \<open>n\<close> nudges
  (\<open>GetCursorPos\<close> calls, the first thing \<open>nudge_mouse\<close> does). And when the user32
  calls succeed, no signal is handled during the nudge and the desktop leaves the
  pointer where the last call puts it, \<open>nudge_mouse\<close> reads the position \<open>(x, y)\<close>,
  moves the pointer to \<open>(x + 1, y)\<close>, pauses 0.05 s, moves it back to \<open>(x, y)\<close>, and the
  pointer ends where it was.
\<close>

theorem nudge_once_per_cycle_round_trip:
  assumes "mouse a"
  shows "(\<forall>n w'. main E a n (boot p) = (None, w') \<longrightarrow> nudges (trace w') = n)
       \<and> (\<forall>w. (\<forall>j. user32 E j = Done)
               \<and> (\<forall>k. signal_at E = Some k \<longrightarrow> k < ticks w \<or> ticks w + 4 \<le> k)
               \<and> screen E (cursor w) = cursor w \<longrightarrow>
             fst (nudge_mouse E w) = Inr ()
             \<and> trace (snd (nudge_mouse E w)) = trace w @
                 [GetCursorPos,
                  SetCursorPos (sint (fst (cursor w)) + 1) (sint (snd (cursor w))),
                  Sleep (5 / 100),
                  SetCursorPos (sint (fst (cursor w))) (sint (snd (cursor w)))]
             \<and> cursor (snd (nudge_mouse E w)) = cursor w)"
proof (rule conjI)
  show "\<forall>n w'. main E a n (boot p) = (None, w') \<longrightarrow> nudges (trace w') = n"
  proof (intro allI impI)
    fix n w'
    assume "main E a n (boot p) = (None, w')"
    from main_running [OF this] assms show "nudges (trace w') = n" by auto
  qed
next
  show "\<forall>w. (\<forall>j. user32 E j = Done)
               \<and> (\<forall>k. signal_at E = Some k \<longrightarrow> k < ticks w \<or> ticks w + 4 \<le> k)
               \<and> screen E (cursor w) = cursor w \<longrightarrow>
             fst (nudge_mouse E w) = Inr ()
             \<and> trace (snd (nudge_mouse E w)) = trace w @
                 [GetCursorPos,
                  SetCursorPos (sint (fst (cursor w)) + 1) (sint (snd (cursor w))),
                  Sleep (5 / 100),
                  SetCursorPos (sint (fst (cursor w))) (sint (snd (cursor w)))]
             \<and> cursor (snd (nudge_mouse E w)) = cursor w"
  proof (intro allI impI, elim conjE)
    fix w :: world
    assume "\<forall>j. user32 E j = Done"
      and "\<forall>k. signal_at E = Some k \<longrightarrow> k < ticks w \<or> ticks w + 4 \<le> k"
      and home: "screen E (cursor w) = cursor w"
    from nudge_try_round_trip [OF this(1,2)] home
    show "fst (nudge_mouse E w) = Inr ()
             \<and> trace (snd (nudge_mouse E w)) = trace w @
                 [GetCursorPos,
                  SetCursorPos (sint (fst (cursor w)) + 1) (sint (snd (cursor w))),
                  Sleep (5 / 100),
                  SetCursorPos (sint (fst (cursor w))) (sint (snd (cursor w)))]
             \<and> cursor (snd (nudge_mouse E w)) = cursor w"
      by (simp add: nudge_mouse_def)
  qed
qed

theorem nudge_once_per_cycle_round_trip_witness:
  "nudges (trace (snd (main quiet nudging (Suc (Suc 0)) (boot (5, 7))))) = 2
   \<and> trace (snd (nudge_mouse quiet (boot (5, 7)))) =
       [GetCursorPos, SetCursorPos 6 7, Sleep (5 / 100), SetCursorPos 5 7]
   \<and> cursor (snd (nudge_mouse quiet (boot (5, 7)))) = (5, 7)"
proof -
  have m: "mouse nudging"
    by (simp add: nudging_def)
  note inst = nudge_once_per_cycle_round_trip [OF m, of quiet "(5, 7)"]
  from inst [THEN conjunct1, rule_format, OF main_quiet_nudging]
  have a: "nudges (trace (snd (main quiet nudging (Suc (Suc 0)) (boot (5, 7))))) = 2"
    by (simp add: main_quiet_nudging)
  have h: "(\<forall>j. user32 quiet j = Done)
      \<and> (\<forall>k. signal_at quiet = Some k \<longrightarrow> k < ticks (boot (5, 7)) \<or> ticks (boot (5, 7)) + 4 \<le> k)
      \<and> screen quiet (cursor (boot (5, 7))) = cursor (boot (5, 7))"
    by (simp add: quiet_def)
  from inst [THEN conjunct2, rule_format, OF h]
  have b: "trace (snd (nudge_mouse quiet (boot (5, 7)))) =
       [GetCursorPos, SetCursorPos 6 7, Sleep (5 / 100), SetCursorPos 5 7]
     \<and> cursor (snd (nudge_mouse quiet (boot (5, 7)))) = (5, 7)"
    by simp
  from a b show ?thesis by simp
qed

section \<open>A nudge that fails\<close>


lemma main_faulty_nudging:
  "main (faulty 5) nudging (Suc (Suc 0)) (boot (5, 7)) =
    (None,
     \<lparr>trace =
        [ExecState prevent_sleep_flags 0x80000003,
         Print ''[INFO] Keep-alive active. Press Ctrl+C to stop.'',
         Print ''[INFO] Mouse nudge enabled every 1s.'',
         ExecState prevent_sleep_flags 0x80000003, GetCursorPos, SetCursorPos 6 7,
         Print ''[WARN] Mouse nudge failed: access denied'', Sleep 1,
         ExecState prevent_sleep_flags 0x80000003, GetCursorPos, SetCursorPos 6 7,
         Sleep (5 / 100), SetCursorPos 5 7, Sleep 1],
      cursor = (5, 7), ticks = 15\<rparr>)"
  by (simp add: run_defs faulty_def quiet_def nudging_def str_int_1)




section \<open>The running loop\<close>




section \<open>The flags of the assertion\<close>

lemma then_do_keeps:
  assumes "then_do m f w = (r, w')"
    and "\<And>r1 w1. m w = (r1, w1) \<Longrightarrow> Q w1"
    and "\<And>x w1. m w = (Inr x, w1) \<Longrightarrow> Q w1 \<Longrightarrow> f x w1 = (r, w') \<Longrightarrow> Q w'"
  shows "Q w'"
  using then_do_cases [OF assms(1)] assms(2,3) by blast

lemma print_flagged:
  assumes "at_checkpoint E (print s) w = (r, w')" and "list_all well_flagged (trace w)"
  shows "list_all well_flagged (trace w')"
  using assms by (auto simp: at_checkpoint_def on_exit_eq print_def split: if_splits)

lemma proceed_flagged:
  assumes "at_checkpoint E proceed w = (r, w')" and "list_all well_flagged (trace w)"
  shows "list_all well_flagged (trace w')"
  using assms by (auto simp: at_checkpoint_def on_exit_eq proceed_def split: if_splits)

lemma release_flagged:
  assumes "at_checkpoint E (allow_sleep E) w = (r, w')" and "list_all well_flagged (trace w)"
  shows "list_all well_flagged (trace w')"
  using assms by (auto simp: at_checkpoint_def on_exit_eq allow_sleep_eq split: if_splits)

lemma sleep_flagged:
  assumes "at_checkpoint E (time_sleep E d) w = (r, w')" and "list_all well_flagged (trace w)"
  shows "list_all well_flagged (trace w')"
  using assms by (auto simp: at_checkpoint_def on_exit_eq time_sleep_def split: if_splits)

lemma prevent_sleep_flagged:
  assumes "prevent_sleep E w = (r, w')" and "list_all well_flagged (trace w)"
  shows "list_all well_flagged (trace w')"
  using assms
  by (auto simp: prevent_sleep_def then_do_def at_checkpoint_def on_exit_eq
      SetThreadExecutionState_def Let_def print_def sys_exit_def split: if_splits prod.splits)

lemma nudge_try_flagged:
  assumes "nudge_try E w = (r, w')" and "list_all well_flagged (trace w)"
  shows "list_all well_flagged (trace w')"
  using assms
  by (auto simp: nudge_try_def then_do_def at_checkpoint_def on_exit_eq
      user32_GetCursorPos_def user32_SetCursorPos_def time_sleep_def
      split: if_splits prod.splits reply.splits)

lemma nudge_mouse_flagged:
  assumes "nudge_mouse E w = (r, w')" and "list_all well_flagged (trace w)"
  shows "list_all well_flagged (trace w')"
proof -
  obtain r1 w1 where t: "nudge_try E w = (r1, w1)" by (cases "nudge_try E w")
  note f1 = nudge_try_flagged [OF t assms(2)]
  show ?thesis
  proof (cases "\<exists>m. r1 = Inl (Error m)")
    case True
    then obtain m where "r1 = Inl (Error m)" by blast
    with assms(1) t have "at_checkpoint E (print (''[WARN] Mouse nudge failed: '' @ m)) w1 = (r, w')"
      by (simp add: nudge_mouse_def)
    from print_flagged [OF this f1] show ?thesis .
  next
    case False
    with assms(1) t have "w' = w1"
      by (auto simp: nudge_mouse_def split: sum.splits exc.splits)
    with f1 show ?thesis by simp
  qed
qed

lemma cycle_flagged:
  assumes "cycle E a w = (r, w')" and "list_all well_flagged (trace w)"
  shows "list_all well_flagged (trace w')"
proof (rule then_do_keeps [OF assms(1) [unfolded cycle_def]])
  fix r1 w1 assume "prevent_sleep E w = (r1, w1)"
  from prevent_sleep_flagged [OF this assms(2)] show "list_all well_flagged (trace w1)" .
next
  fix x w1
  let ?nm = "if mouse a then nudge_mouse E else (\<lambda>w. (Inr (), w))"
  assume f1: "list_all well_flagged (trace w1)"
    and rest: "then_do ?nm (\<lambda>_. at_checkpoint E (time_sleep E (of_int (interval a)))) w1 = (r, w')"
  show "list_all well_flagged (trace w')"
  proof (rule then_do_keeps [OF rest])
    fix r2 w2 assume "?nm w1 = (r2, w2)"
    with f1 show "list_all well_flagged (trace w2)"
      using nudge_mouse_flagged [of E w1 r2 w2] by (auto split: if_splits)
  next
    fix y w2
    assume "list_all well_flagged (trace w2)"
      and "at_checkpoint E (time_sleep E (of_int (interval a))) w2 = (r, w')"
    from sleep_flagged [OF this(2,1)] show "list_all well_flagged (trace w')" .
  qed
qed

lemma loop_flagged:
  assumes "loop E a n w = (r, w')" and "list_all well_flagged (trace w)"
  shows "list_all well_flagged (trace w')"
  using assms
proof (induction n arbitrary: w)
  case 0
  then show ?case by simp
next
  case (Suc n)
  obtain rc wc where c: "cycle E a w = (rc, wc)" by (cases "cycle E a w")
  note f = cycle_flagged [OF c Suc.prems(2)]
  show ?case
  proof (cases rc)
    case (Inl e)
    with Suc.prems(1) c have "w' = wc" by simp
    with f show ?thesis by simp
  next
    case (Inr x)
    with Suc.prems(1) c have "loop E a n wc = (r, w')" by simp
    from Suc.IH [OF this f] show ?thesis .
  qed
qed

lemma finally_flagged:
  assumes "try_loop_finally E a n w = (r, w')" and "list_all well_flagged (trace w)"
  shows "list_all well_flagged (trace w')"
proof -
  obtain r0 w0 where l: "loop E a n w = (r0, w0)" by (cases "loop E a n w")
  note f0 = loop_flagged [OF l assms(2)]
  let ?fin = "then_do (at_checkpoint E (allow_sleep E)) (\<lambda>_. at_checkpoint E proceed)"
  obtain r1 w1 where f: "?fin w0 = (r1, w1)" by (cases "?fin w0")
  have f1: "list_all well_flagged (trace w1)"
  proof (rule then_do_keeps [OF f])
    fix r2 w2 assume "at_checkpoint E (allow_sleep E) w0 = (r2, w2)"
    from release_flagged [OF this f0] show "list_all well_flagged (trace w2)" .
  next
    fix x w2
    assume "list_all well_flagged (trace w2)" and "at_checkpoint E proceed w2 = (r1, w1)"
    from proceed_flagged [OF this(2,1)] show "list_all well_flagged (trace w1)" .
  qed
  show ?thesis
  proof (cases r0)
    case None
    with assms(1) l have "w' = w0" by (simp add: try_loop_finally_def)
    with f0 show ?thesis by simp
  next
    case (Some e)
    with assms(1) l f have "w' = w1"
      by (auto simp: try_loop_finally_def split: sum.splits)
    with f1 show ?thesis by simp
  qed
qed

lemma startup_flagged:
  assumes "startup E a w = (r, w')" and "list_all well_flagged (trace w)"
  shows "list_all well_flagged (trace w')"
proof (rule then_do_keeps [OF assms(1) [unfolded startup_def]])
  fix r1 w1 assume "prevent_sleep E w = (r1, w1)"
  from prevent_sleep_flagged [OF this assms(2)] show "list_all well_flagged (trace w1)" .
next
  fix x w1
  assume "list_all well_flagged (trace w1)"
    and "then_do (at_checkpoint E (print ''[INFO] Keep-alive active. Press Ctrl+C to stop.''))
         (\<lambda>_. if mouse a
               then at_checkpoint E
                      (print (''[INFO] Mouse nudge enabled every '' @ str_int (interval a) @ ''s.''))
               else (\<lambda>w. (Inr (), w))) w1 = (r, w')"
  then show "list_all well_flagged (trace w')"
    by (auto simp: then_do_def at_checkpoint_def on_exit_eq print_def split: if_splits)
qed

lemma main_flagged: "list_all well_flagged (trace (snd (main E a n (boot p))))"
proof -
  let ?entry = "then_do (startup E a) (\<lambda>_. at_checkpoint E proceed)"
  obtain r1 w1 where s: "?entry (boot p) = (r1, w1)" by (cases "?entry (boot p)")
  have f1: "list_all well_flagged (trace w1)"
  proof (rule then_do_keeps [OF s])
    fix r2 w2 assume "startup E a (boot p) = (r2, w2)"
    from startup_flagged [OF this] show "list_all well_flagged (trace w2)" by simp
  next
    fix x w2
    assume "list_all well_flagged (trace w2)" and "at_checkpoint E proceed w2 = (r1, w1)"
    from proceed_flagged [OF this(2,1)] show "list_all well_flagged (trace w1)" .
  qed
  show ?thesis
  proof (cases r1)
    case (Inl e)
    with s f1 show ?thesis by (simp add: main_def)
  next
    case (Inr x)
    obtain r w' where t: "try_loop_finally E a n w1 = (r, w')"
      by (cases "try_loop_finally E a n w1")
    from finally_flagged [OF t f1] s Inr t show ?thesis by (simp add: main_def)
  qed
qed

lemma main_quiet_defaults_0:
  "main quiet defaults 0 (boot (0, 0)) =
    (None,
     \<lparr>trace =
        [ExecState prevent_sleep_flags 0x80000003,
         Print ''[INFO] Keep-alive active. Press Ctrl+C to stop.''],
      cursor = (0, 0), ticks = 3\<rparr>)"
  by (simp add: run_defs quiet_def defaults_def)

text \<open>
  Claim C8, as stated: the mask of \<open>prevent_sleep\<close> holds the display-required flag
  optionally, display sleep being suppressed only when so configured. It fails for the
  run without any option: the first call carries \<open>prevent_sleep_flags\<close>, and the
  display-required bit is set in it.
\<close>

theorem display_required_without_option:
  "\<not> mouse defaults \<and> interval defaults = 60
   \<and> hd (trace (snd (main quiet defaults 0 (boot (0, 0)))))
       = ExecState prevent_sleep_flags 0x80000003
   \<and> prevent_sleep_flags AND ES_DISPLAY_REQUIRED = ES_DISPLAY_REQUIRED"
  by (simp add: main_quiet_defaults_0)
    (simp add: defaults_def prevent_sleep_flags_def ES_CONTINUOUS_def ES_SYSTEM_REQUIRED_def
      ES_DISPLAY_REQUIRED_def)

text \<open>
  Claim C8, amended: the mask of \<open>prevent_sleep\<close> is the constant \<open>0x80000003\<close>:
  continuous, system-required and display-required, all three always; nothing
  configures it. In every run, whatever the options and the environment, a call of
  \<open>SetThreadExecutionState\<close> that is not the release (\<open>ES_CONTINUOUS\<close> alone) carries
  exactly this mask.
\<close>

theorem assertion_flags_are_constant:
  "prevent_sleep_flags = 0x80000003
   \<and> prevent_sleep_flags AND ES_CONTINUOUS = ES_CONTINUOUS
   \<and> prevent_sleep_flags AND ES_SYSTEM_REQUIRED = ES_SYSTEM_REQUIRED
   \<and> prevent_sleep_flags AND ES_DISPLAY_REQUIRED = ES_DISPLAY_REQUIRED
   \<and> (\<forall>f r. ExecState f r \<in> set (trace (snd (main E a n (boot p)))) \<and> f \<noteq> ES_CONTINUOUS
          \<longrightarrow> f = 0x80000003)"
proof (intro conjI allI impI)
  show "prevent_sleep_flags = 0x80000003"
    by (rule prevent_sleep_flags_value)
  show "prevent_sleep_flags AND ES_CONTINUOUS = ES_CONTINUOUS"
    by (simp add: prevent_sleep_flags_def ES_CONTINUOUS_def ES_SYSTEM_REQUIRED_def
        ES_DISPLAY_REQUIRED_def)
  show "prevent_sleep_flags AND ES_SYSTEM_REQUIRED = ES_SYSTEM_REQUIRED"
    by (simp add: prevent_sleep_flags_def ES_CONTINUOUS_def ES_SYSTEM_REQUIRED_def
        ES_DISPLAY_REQUIRED_def)
  show "prevent_sleep_flags AND ES_DISPLAY_REQUIRED = ES_DISPLAY_REQUIRED"
    by (simp add: prevent_sleep_flags_def ES_CONTINUOUS_def ES_SYSTEM_REQUIRED_def
        ES_DISPLAY_REQUIRED_def)
next
  fix f r
  assume h: "ExecState f r \<in> set (trace (snd (main E a n (boot p)))) \<and> f \<noteq> ES_CONTINUOUS"
  from main_flagged [of E a n p] h have "well_flagged (ExecState f r)"
    by (auto simp: list_all_iff)
  with h show "f = 0x80000003"
    by (simp add: prevent_sleep_flags_value)
qed

theorem assertion_flags_are_constant_witness:
  "ExecState prevent_sleep_flags 0x80000003
     \<in> set (trace (snd (main quiet defaults 0 (boot (0, 0)))))
   \<and> prevent_sleep_flags \<noteq> ES_CONTINUOUS
   \<and> prevent_sleep_flags = 0x80000003"
proof -
  have h: "ExecState prevent_sleep_flags 0x80000003
             \<in> set (trace (snd (main quiet defaults 0 (boot (0, 0)))))
           \<and> prevent_sleep_flags \<noteq> ES_CONTINUOUS"
    by (simp add: main_quiet_defaults_0)
  from assertion_flags_are_constant [of quiet defaults 0 "(0, 0)",
      THEN conjunct2, THEN conjunct2, THEN conjunct2, THEN conjunct2, rule_format, OF h]
  have "prevent_sleep_flags = 0x80000003" .
  with h show ?thesis by (intro conjI) simp_all
qed

section \<open>A release call that fails\<close>






section \<open>The interval is not validated\<close>

lemma entry_succeeds:
  assumes "signal_at E = None" and "ste_result E 0 \<noteq> 0"
  shows "startup E a (boot p) =
           (Inr (), \<lparr>trace = startup_trace E a, cursor = p,
                     ticks = (if mouse a then 3 else 2)\<rparr>)"
    and "then_do (startup E a) (\<lambda>_. at_checkpoint E proceed) (boot p) =
           (Inr (), \<lparr>trace = startup_trace E a, cursor = p,
                     ticks = (if mouse a then 4 else 3)\<rparr>)"
  using assms
  by (simp_all add: startup_def prevent_sleep_def then_do_def at_checkpoint_def proceed_def
      SetThreadExecutionState_def Let_def print_def boot_def emit_def startup_trace_def)

lemma nudge_mouse_unsignalled:
  assumes "signal_at E = None"
  shows "\<exists>w'. nudge_mouse E w = (Inr (), w')"
proof -
  obtain r w' where n: "nudge_mouse E w = (r, w')" by (cases "nudge_mouse E w")
  show ?thesis
  proof (cases r)
    case (Inl e)
    with n nudge_mouse_raises [of E w e w'] have "r = Inl (SystemExit 0)" by simp
    with nudge_mouse_accounted [OF n] assms show ?thesis by (simp add: accounted_def)
  next
    case (Inr u)
    with n show ?thesis by simp
  qed
qed

lemma cycle_fails:
  assumes sig: "signal_at E = None" and ok: "\<forall>j. ste_result E j \<noteq> 0"
    and bad: "interval a < 0 \<or> int (sleep_max E) < interval a"
  shows "\<exists>m w' t. cycle E a w = (Inl (Error m), w')
           \<and> trace w' = t @ [Sleep (of_int (interval a))]
           \<and> releases (trace w') = releases (trace w)"
proof -
  let ?w1 = "emit (ExecState prevent_sleep_flags (ste_result E (length (trace w))))
                (w\<lparr>ticks := Suc (ticks w)\<rparr>)"
  let ?nm = "if mouse a then nudge_mouse E else (\<lambda>w. (Inr (), w))"
  have p: "prevent_sleep E w = (Inr (), ?w1)"
    using ok sig by (intro prevent_sleep_succeeds) simp_all
  obtain w2 where n: "?nm ?w1 = (Inr (), w2)"
    using nudge_mouse_unsignalled [OF sig, of ?w1] by (cases "mouse a") auto
  from bad have "of_int (interval a) < (0 :: rat)
      \<or> of_nat (sleep_max E) + 1 \<le> \<bar>of_int (interval a) :: rat\<bar>"
    by (auto simp: interval_fits)
  from sleep_fails [OF this, of w2] sig obtain m where
    s: "at_checkpoint E (time_sleep E (of_int (interval a))) w2
          = (Inl (Error m), emit (Sleep (of_int (interval a))) (w2\<lparr>ticks := Suc (ticks w2)\<rparr>))"
    by auto
  let ?w3 = "emit (Sleep (of_int (interval a))) (w2\<lparr>ticks := Suc (ticks w2)\<rparr>)"
  from p n s have c: "cycle E a w = (Inl (Error m), ?w3)"
    by (simp add: cycle_def then_do_def)
  from cycle_accounted [OF c] have "releases (trace ?w3) = releases (trace w)"
    by (simp add: accounted_def)
  with c show ?thesis by (intro exI [of _ m] exI [of _ ?w3] exI [of _ "trace w2"]) simp
qed

lemma main_fails:
  assumes sig: "signal_at E = None" and ok: "\<forall>j. ste_result E j \<noteq> 0"
    and bad: "interval a < 0 \<or> int (sleep_max E) < interval a"
  shows "\<exists>m t r. fst (main E a (Suc n) (boot p)) = Some (Error m)
           \<and> trace (snd (main E a (Suc n) (boot p)))
               = t @ [Sleep (of_int (interval a)), ExecState ES_CONTINUOUS r]
           \<and> releases (trace (snd (main E a (Suc n) (boot p)))) = 1"
proof -
  let ?w1 = "\<lparr>trace = startup_trace E a, cursor = p, ticks = (if mouse a then 4 else 3)\<rparr>"
  from ok have ok0: "ste_result E 0 \<noteq> 0" by simp
  note entry = entry_succeeds(2) [OF sig ok0, of a p]
  from cycle_fails [OF sig ok bad, of ?w1] obtain m w' t where
    c: "cycle E a ?w1 = (Inl (Error m), w')"
    and t: "trace w' = t @ [Sleep (of_int (interval a))]"
    and r: "releases (trace w') = 0"
    by auto
  from c have l: "loop E a (Suc n) ?w1 = (Some (Error m), w')" by simp
  have m1: "main E a (Suc n) (boot p) = try_loop_finally E a (Suc n) ?w1"
    by (simp only: main_def entry prod.case sum.case)
  have m2: "try_loop_finally E a (Suc n) ?w1 =
      (Some (Error m),
       emit (ExecState ES_CONTINUOUS (ste_result E (length (trace w'))))
         (w'\<lparr>ticks := Suc (Suc (ticks w'))\<rparr>))"
    using sig
    by (simp add: try_loop_finally_def l then_do_def at_checkpoint_def
        proceed_def allow_sleep_eq del: loop.simps)
  from m1 m2 t r show ?thesis by simp
qed

text \<open>
  Claim C10: no value of \<open>--interval\<close> is rejected. With no signal and Windows
  accepting the calls, startup succeeds for every integer \<open>args.interval\<close>. If
  \<open>time.sleep\<close> accepts the value (zero included), the run loops for ever and each pass
  ends with a sleep request of exactly that value. If the value is negative (or beyond
  the platform's limit), the first pass requests the sleep with the value unchanged, the
  call raises, the exception is not caught, \<open>allow_sleep\<close> runs once (the \<open>finally\<close>
  block: the release call is the last event, right after the sleep request), and the
  exit status is not zero.
\<close>

theorem interval_is_not_validated:
  assumes "signal_at E = None" and "\<forall>j. ste_result E j \<noteq> 0"
  shows "(\<exists>w1. startup E a (boot p) = (Inr (), w1) \<and> trace w1 = startup_trace E a)
       \<and> (0 \<le> interval a \<and> interval a \<le> int (sleep_max E) \<longrightarrow>
            (\<forall>n. fst (main E a n (boot p)) = None
                \<and> (\<exists>cs. trace (snd (main E a n (boot p))) = startup_trace E a @ concat cs
                       \<and> length cs = n \<and> list_all (cycle_shape a) cs)))
       \<and> (interval a < 0 \<or> int (sleep_max E) < interval a \<longrightarrow>
            (\<forall>n. \<exists>m t r. fst (main E a (Suc n) (boot p)) = Some (Error m)
                \<and> exit_status (Error m) \<noteq> 0
                \<and> trace (snd (main E a (Suc n) (boot p)))
                    = t @ [Sleep (of_int (interval a)), ExecState ES_CONTINUOUS r]
                \<and> releases (trace (snd (main E a (Suc n) (boot p)))) = 1))"
proof (intro conjI impI allI)
  from assms(2) have "ste_result E 0 \<noteq> 0" by simp
  from entry_succeeds(1) [OF assms(1) this, of a p]
  show "\<exists>w1. startup E a (boot p) = (Inr (), w1) \<and> trace w1 = startup_trace E a"
    by simp
next
  fix n
  assume h: "0 \<le> interval a \<and> interval a \<le> int (sleep_max E)"
  with assms show f: "fst (main E a n (boot p)) = None"
    by (intro main_never_leaves) simp_all
  then obtain w' where run: "main E a n (boot p) = (None, w')"
    by (cases "main E a n (boot p)") auto
  from main_running [OF run] run
  show "\<exists>cs. trace (snd (main E a n (boot p))) = startup_trace E a @ concat cs
           \<and> length cs = n \<and> list_all (cycle_shape a) cs"
    by auto
next
  fix n
  assume "interval a < 0 \<or> int (sleep_max E) < interval a"
  from main_fails [OF assms this, of n p]
  show "\<exists>m t r. fst (main E a (Suc n) (boot p)) = Some (Error m)
                \<and> exit_status (Error m) \<noteq> 0
                \<and> trace (snd (main E a (Suc n) (boot p)))
                    = t @ [Sleep (of_int (interval a)), ExecState ES_CONTINUOUS r]
                \<and> releases (trace (snd (main E a (Suc n) (boot p)))) = 1"
    by auto
qed

theorem interval_is_not_validated_witness:
  "(\<exists>m t r. fst (main quiet negative (Suc 0) (boot (5, 7))) = Some (Error m)
        \<and> exit_status (Error m) \<noteq> 0
        \<and> trace (snd (main quiet negative (Suc 0) (boot (5, 7))))
            = t @ [Sleep (of_int (interval negative)), ExecState ES_CONTINUOUS r]
        \<and> releases (trace (snd (main quiet negative (Suc 0) (boot (5, 7))))) = 1)
   \<and> fst (main quiet defaults 3 (boot (5, 7))) = None"
proof -
  have s: "signal_at quiet = None" and ok: "\<forall>j. ste_result quiet j \<noteq> 0"
    by (simp_all add: quiet_def)
  have neg: "interval negative < 0 \<or> int (sleep_max quiet) < interval negative"
    by (simp add: negative_def)
  have pos: "0 \<le> interval defaults \<and> interval defaults \<le> int (sleep_max quiet)"
    by (simp add: defaults_def quiet_def)
  from interval_is_not_validated [OF s ok, of negative "(5, 7)",
      THEN conjunct2, THEN conjunct2, rule_format, OF neg, of 0]
  have a: "\<exists>m t r. fst (main quiet negative (Suc 0) (boot (5, 7))) = Some (Error m)
        \<and> exit_status (Error m) \<noteq> 0
        \<and> trace (snd (main quiet negative (Suc 0) (boot (5, 7))))
            = t @ [Sleep (of_int (interval negative)), ExecState ES_CONTINUOUS r]
        \<and> releases (trace (snd (main quiet negative (Suc 0) (boot (5, 7))))) = 1" .
  from interval_is_not_validated [OF s ok, of defaults "(5, 7)",
      THEN conjunct2, THEN conjunct1, rule_format, OF pos, of 3]
  have b: "fst (main quiet defaults 3 (boot (5, 7))) = None" by (rule conjunct1)
  from a b show ?thesis by (intro conjI)
qed

end
